theory Spec2Isabelle
  imports Main "HOL-Library.Word" "HOL-Library.Signed_Division"
begin

section \<open>Snapshots of the bor consensus engine (consensus/bor/snapshot.go)\<close>

text \<open>
  The theory embeds \<^verbatim>\<open>consensus/bor/snapshot.go\<close>: the \<^verbatim>\<open>Snapshot\<close> struct, its
  constructor, its copy, its persistence (\<^verbatim>\<open>store\<close>, \<^verbatim>\<open>loadSnapshot\<close>), the header
  fold \<^verbatim>\<open>apply\<close> and the queries \<^verbatim>\<open>signers\<close> and \<^verbatim>\<open>inturn\<close>.

  Go's \<^verbatim>\<open>uint64\<close> is a 64-bit word whose arithmetic wraps. Go's \<^verbatim>\<open>int\<close> (64 bits on
  the platforms the client runs on) is a 64-bit word too, read in two's complement:
  its comparisons are the signed ones and its division truncates towards zero.
  \<^verbatim>\<open>common.Address\<close> is \<^verbatim>\<open>[20]byte\<close> and \<^verbatim>\<open>common.Hash\<close> is \<^verbatim>\<open>[32]byte\<close>; both are
  compared bytewise, so they are words of 160 and 256 bits (big-endian).
  Pointers to objects this file never looks into (the signature cache, the API
  handle) are plain addresses.
\<close>

type_synonym uint64 = "64 word"
type_synonym go_int = "64 word"
type_synonym byte = "8 word"
type_synonym address = "160 word"
type_synonym hash = "256 word"
type_synonym ptr = nat

subsection \<open>Errors and panics\<close>

text \<open>
  The three sentinel errors \<^verbatim>\<open>apply\<close> returns, an error value handed back by a
  collaborator (signature recovery, the database, the JSON codec), and the two run-time
  panics the code of this file can raise by itself: the integer division by zero of
  \<^verbatim>\<open>(number+1) % s.config.Sprint\<close> and the slice bounds of
  \<^verbatim>\<open>header.Extra[extraVanity : len(header.Extra)-extraSeal]\<close>. Where pointers are
  modelled (the heap of the last part of the model), following a pointer that has no
  object and assigning into a map that was never made are panics too.
\<close>

datatype error =
    errOutOfRangeChain
  | errUnauthorizedSigner
  | errRecentlySigned
  | errExternal string
  | panicDivideByZero
  | panicSliceBounds
  | panicNilPointer
  | panicNilMap

subsection \<open>Data\<close>

text \<open>\<^verbatim>\<open>params.BorConfig\<close>: the file reads its \<^verbatim>\<open>Sprint\<close> field only.\<close>

record BorConfig =
  Sprint :: uint64

text \<open>
  \<^verbatim>\<open>types.Header\<close>: the file reads \<^verbatim>\<open>header.Number.Uint64()\<close> and \<^verbatim>\<open>header.Extra\<close>.
  The field \<open>Number\<close> holds the value of \<^verbatim>\<open>Number.Uint64()\<close>. The remaining fields of a
  header, which signature recovery and hashing read, are the record's extension.
\<close>

record Header =
  Number :: uint64
  Extra :: "byte list"

text \<open>
  The \<^verbatim>\<open>Snapshot\<close> struct. The validator set is the value of type \<open>'vs\<close> behind the
  \<^verbatim>\<open>*ValidatorSet\<close> pointer; \<^verbatim>\<open>Recents\<close> is a Go map. On values the pointers
  \<^verbatim>\<open>config\<close> and \<^verbatim>\<open>ValidatorSet\<close> are taken to point to an object, as they do in every
  snapshot that \<^verbatim>\<open>newSnapshot\<close> makes; the heap at the end of the model has nil pointers.
\<close>

record 'vs Snapshot =
  config :: BorConfig
  ethAPI :: ptr
  sigcache :: ptr
  Number :: uint64
  Hash :: hash
  ValidatorSet :: 'vs
  Recents :: "uint64 \<rightharpoonup> address"

subsection \<open>Collaborators\<close>

text \<open>
  The file calls code of the repository that lives in other files: the constants
  \<^verbatim>\<open>extraVanity\<close> and \<^verbatim>\<open>extraSeal\<close>, \<^verbatim>\<open>ecrecover\<close>, \<^verbatim>\<open>ParseValidators\<close>,
  \<^verbatim>\<open>getUpdatedValidatorSet\<close>, the methods of \<^verbatim>\<open>ValidatorSet\<close> and \<^verbatim>\<open>Header.Hash\<close>.
  They are parameters of the model, collected in one record, so that every theorem
  holds for whatever these functions compute. Their types follow the call sites and
  the contract of the specification (section 6):
  \<^item> \<open>ecrecover header cache\<close> yields the signer's address or an error;
  \<^item> \<open>ParseValidators bytes\<close> yields a list of validators and an optional error;
  \<^item> \<open>getUpdatedValidatorSet\<close>, \<open>IncrementProposerPriority\<close>, \<open>Copy\<close> and
    \<open>updateTotalVotingPower\<close> yield the validator set their Go counterparts return or
    leave behind the pointer they mutate;
  \<^item> \<open>GetByAddress\<close> yields the index, a Go \<^verbatim>\<open>int\<close> (its second result is dropped at
    every call site); \<open>GetProposer\<close> yields a validator, with no failure, as section 6
    has it; \<open>Validators\<close> and \<open>Address\<close> are the fields of that name.
  The signature cache that \<open>ecrecover\<close> may fill and the lines \<^verbatim>\<open>apply\<close> prints are
  no part of the model.
\<close>

record ('vs, 'val, 'h) collab =
  extraVanity :: nat
  extraSeal :: nat
  ecrecover :: "'h Header_scheme \<Rightarrow> ptr \<Rightarrow> error + address"
  HeaderHash :: "'h Header_scheme \<Rightarrow> hash"
  ParseValidators :: "byte list \<Rightarrow> 'val list \<times> error option"
  getUpdatedValidatorSet :: "'vs \<Rightarrow> 'val list \<Rightarrow> 'vs"
  NewValidatorSet :: "'val list \<Rightarrow> 'vs"
  IncrementProposerPriority :: "'vs \<Rightarrow> int \<Rightarrow> 'vs"
  updateTotalVotingPower :: "'vs \<Rightarrow> 'vs"
  Copy :: "'vs \<Rightarrow> 'vs"
  HasAddress :: "'vs \<Rightarrow> byte list \<Rightarrow> bool"
  GetProposer :: "'vs \<Rightarrow> 'val"
  GetByAddress :: "'vs \<Rightarrow> address \<Rightarrow> go_int"
  Validators :: "'vs \<Rightarrow> 'val list"
  Address :: "'val \<Rightarrow> address"

subsection \<open>Go's integers and byte arrays\<close>

text \<open>\<^verbatim>\<open>len(xs)\<close> as a Go \<^verbatim>\<open>int\<close>, and the truncating division of two \<^verbatim>\<open>int\<close>s.\<close>

definition go_len :: "'a list \<Rightarrow> go_int" where
  "go_len xs = word_of_nat (length xs)"

definition go_quot :: "go_int \<Rightarrow> go_int \<Rightarrow> go_int" where
  "go_quot a b = word_of_int (sint a sdiv sint b)"

text \<open>\<^verbatim>\<open>a.Bytes()\<close> and \<^verbatim>\<open>h[:]\<close>: the bytes of an array, first byte first.\<close>

definition be_bytes :: "nat \<Rightarrow> 'a::len word \<Rightarrow> byte list" where
  "be_bytes n w = map (\<lambda>i. ucast (drop_bit (8 * (n - 1 - i)) w)) [0..<n]"

definition address_Bytes :: "address \<Rightarrow> byte list" where
  "address_Bytes a = be_bytes 20 a"

definition hash_Bytes :: "hash \<Rightarrow> byte list" where
  "hash_Bytes h = be_bytes 32 h"

subsection \<open>newSnapshot and copy\<close>

definition newSnapshot ::
  "('vs, 'val, 'h) collab \<Rightarrow> BorConfig \<Rightarrow> ptr \<Rightarrow> uint64 \<Rightarrow> hash \<Rightarrow> 'val list \<Rightarrow> ptr \<Rightarrow> 'vs Snapshot" where
  "newSnapshot c cfg cache number hash validators api =
     \<lparr>config = cfg, ethAPI = api, sigcache = cache, Snapshot.Number = number, Hash = hash,
      ValidatorSet = NewValidatorSet c validators, Recents = Map.empty\<rparr>"

text \<open>
  \<^verbatim>\<open>copy\<close> builds a new snapshot around a copy of the validator set and a new map that
  receives every entry of \<^verbatim>\<open>s.Recents\<close>: as a value, the new map is the old one.
\<close>

definition copy :: "('vs, 'val, 'h) collab \<Rightarrow> 'vs Snapshot \<Rightarrow> 'vs Snapshot" where
  "copy c s =
     \<lparr>config = config s, ethAPI = ethAPI s, sigcache = sigcache s,
      Snapshot.Number = Snapshot.Number s, Hash = Hash s,
      ValidatorSet = Copy c (ValidatorSet s), Recents = Recents s\<rparr>"

subsection \<open>apply\<close>

text \<open>
  The sanity loop of \<^verbatim>\<open>apply\<close> (lines 171 to 175): \<open>True\<close> when no adjacent pair
  breaks \<^verbatim>\<open>headers[i+1].Number.Uint64() == headers[i].Number.Uint64()+1\<close>.
\<close>

fun sanityCheck :: "'h Header_scheme list \<Rightarrow> bool" where
  "sanityCheck (h0 # h1 # hs) =
     (if Header.Number h1 \<noteq> Header.Number h0 + 1 then False else sanityCheck (h1 # hs))"
| "sanityCheck _ = True"

text \<open>
  Lines 186 to 189: delete the oldest signer from the recent list. The configuration
  is read through \<^verbatim>\<open>s\<close>, the writes go to \<^verbatim>\<open>snap\<close>.
\<close>

definition evictOldest :: "'vs Snapshot \<Rightarrow> 'vs Snapshot \<Rightarrow> uint64 \<Rightarrow> 'vs Snapshot" where
  "evictOldest s snap number =
     (if Sprint (config s) \<le> number \<and> 0 \<le> number - Sprint (config s)
      then snap\<lparr>Recents := (Recents snap)(number - Sprint (config s) := None)\<rparr>
      else snap)"

text \<open>
  Lines 197 to 209: change the validator set at the last header of a sprint. Go
  evaluates \<^verbatim>\<open>(number+1) % s.config.Sprint\<close> only when \<^verbatim>\<open>number > 0\<close>, and panics there
  when the sprint is zero; the slice expression panics when the extra-data is shorter
  than vanity plus seal. The error of \<^verbatim>\<open>ParseValidators\<close> is assigned to \<^verbatim>\<open>_\<close>.
\<close>

definition changeValidatorSet ::
  "('vs, 'val, 'h) collab \<Rightarrow> 'vs Snapshot \<Rightarrow> 'vs Snapshot \<Rightarrow> 'h Header_scheme \<Rightarrow> error + 'vs Snapshot" where
  "changeValidatorSet c s snap header =
     (let number = Header.Number header in
      if 0 < number \<and> Sprint (config s) = 0 then Inl panicDivideByZero
      else if 0 < number \<and> (number + 1) mod Sprint (config s) = 0 then
        if length (Extra header) < extraVanity c + extraSeal c then Inl panicSliceBounds
        else
          let validatorBytes =
                take (length (Extra header) - extraSeal c - extraVanity c)
                     (drop (extraVanity c) (Extra header));
              newVals = fst (ParseValidators c validatorBytes);
              v = getUpdatedValidatorSet c (Copy c (ValidatorSet snap)) newVals;
              v = IncrementProposerPriority c v 1
          in Inr (snap\<lparr>ValidatorSet := v\<rparr>)
      else Inr snap)"

text \<open>
  Lines 220 to 240: the check of the validator. \<open>True\<close> when the code returns
  \<^verbatim>\<open>errRecentlySigned\<close>.
\<close>

definition outOfTurn :: "('vs, 'val, 'h) collab \<Rightarrow> 'vs \<Rightarrow> address \<Rightarrow> bool" where
  "outOfTurn c vs signer =
     (let validators = Validators c vs;
          proposer = Address c (GetProposer c vs);
          proposerIndex = GetByAddress c vs proposer;
          signerIndex = GetByAddress c vs signer;
          limit = go_len validators - (go_quot (go_len validators) 2 + 1);
          tempIndex = signerIndex
      in if proposerIndex \<noteq> tempIndex \<and> 0 <s limit then
           let tempIndex = (if tempIndex <s proposerIndex then tempIndex + go_len validators
                            else tempIndex)
           in limit <s tempIndex - proposerIndex
         else False)"

text \<open>The body of the loop over the headers (lines 182 to 246), for one header.\<close>

definition applyHeader ::
  "('vs, 'val, 'h) collab \<Rightarrow> 'vs Snapshot \<Rightarrow> 'vs Snapshot \<Rightarrow> 'h Header_scheme \<Rightarrow> error + 'vs Snapshot" where
  "applyHeader c s snap header =
     (let number = Header.Number header;
          snap = evictOldest s snap number
      in case ecrecover c header (sigcache s) of
           Inl err \<Rightarrow> Inl err
         | Inr signer \<Rightarrow>
             (case changeValidatorSet c s snap header of
                Inl e \<Rightarrow> Inl e
              | Inr snap \<Rightarrow>
                  if \<not> HasAddress c (ValidatorSet snap) (address_Bytes signer)
                  then Inl errUnauthorizedSigner
                  else if outOfTurn c (ValidatorSet snap) signer then Inl errRecentlySigned
                  else Inr (snap\<lparr>Recents := (Recents snap)(number \<mapsto> signer)\<rparr>)))"

text \<open>The loop: the first failure ends it.\<close>

fun applyHeaders ::
  "('vs, 'val, 'h) collab \<Rightarrow> 'vs Snapshot \<Rightarrow> 'vs Snapshot \<Rightarrow> 'h Header_scheme list \<Rightarrow> error + 'vs Snapshot" where
  "applyHeaders c s snap [] = Inr snap"
| "applyHeaders c s snap (header # headers) =
     (case applyHeader c s snap header of
        Inl e \<Rightarrow> Inl e
      | Inr snap' \<Rightarrow> applyHeaders c s snap' headers)"

text \<open>
  \<^verbatim>\<open>apply\<close> itself (the name is a keyword of Isabelle, hence the prefix). The lines
  that print the validator set and the signer have no part in the result.
\<close>

definition Snapshot_apply ::
  "('vs, 'val, 'h) collab \<Rightarrow> 'vs Snapshot \<Rightarrow> 'h Header_scheme list \<Rightarrow> error + 'vs Snapshot" where
  "Snapshot_apply c s headers =
     (if length headers = 0 then Inr s
      else if \<not> sanityCheck headers then Inl errOutOfRangeChain
      else if Header.Number (headers ! 0) \<noteq> Snapshot.Number s + 1 then Inl errOutOfRangeChain
      else case applyHeaders c s (copy c s) headers of
             Inl e \<Rightarrow> Inl e
           | Inr snap \<Rightarrow>
               Inr (snap\<lparr>Snapshot.Number := Snapshot.Number snap + word_of_nat (length headers),
                          Hash := HeaderHash c (headers ! (length headers - 1))\<rparr>))"

subsection \<open>signers and inturn\<close>

definition signers :: "('vs, 'val, 'h) collab \<Rightarrow> 'vs Snapshot \<Rightarrow> address list" where
  "signers c s = map (Address c) (Validators c (ValidatorSet s))"

text \<open>
  \<^verbatim>\<open>inturn\<close>: the arithmetic is Go's \<^verbatim>\<open>int\<close>, the result its conversion to \<^verbatim>\<open>uint64\<close>,
  which keeps the 64 bits.
\<close>

definition inturn ::
  "('vs, 'val, 'h) collab \<Rightarrow> 'vs Snapshot \<Rightarrow> uint64 \<Rightarrow> address \<Rightarrow> uint64 \<Rightarrow> uint64" where
  "inturn c s number signer epoch =
     (if address_Bytes signer = address_Bytes 0 then 1
      else
        let validators = Validators c (ValidatorSet s);
            proposer = Address c (GetProposer c (ValidatorSet s));
            totalValidators = go_len validators;
            proposerIndex = GetByAddress c (ValidatorSet s) proposer;
            signerIndex = GetByAddress c (ValidatorSet s) signer;
            tempIndex = signerIndex;
            tempIndex = (if tempIndex <s proposerIndex then tempIndex + totalValidators
                         else tempIndex)
        in totalValidators - (tempIndex - proposerIndex))"

subsection \<open>The turn rule in the words of the specification\<close>

text \<open>
  Section 4.2, step 5, over the integers: the tolerated limit
  \<open>total - (total/2 + 1)\<close> and the cyclic forward distance
  \<open>d = signerIdx - proposerIdx\<close>, plus \<open>total\<close> if negative.
\<close>

definition turnLimit :: "nat \<Rightarrow> int" where
  "turnLimit n = int n - (int n div 2 + 1)"

definition turnDistance :: "nat \<Rightarrow> int \<Rightarrow> int \<Rightarrow> int" where
  "turnDistance n proposerIdx signerIdx =
     (let d = signerIdx - proposerIdx in if d < 0 then d + int n else d)"

subsection \<open>An instance of the collaborators\<close>

text \<open>
  Modelled from the spec: the validator set, signature recovery, the header hash and the
  parser of validators are not in \<^verbatim>\<open>snapshot.go\<close>. For the scenarios of the
  specification and for the concrete instances of the theorems, this is a small
  realisation of the contract of section 6: a validator is its address, a validator set
  is the list of its validators with the position of the proposer, advancing the
  proposer priority moves that position one step round the list, a header carries its
  signer, and a candidate list replaces the members when it is not empty.
\<close>

record RoundRobin =
  members :: "address list"
  turn :: nat

record SealedHeader = Header +
  Signer :: "address option"

fun indexOf :: "address \<Rightarrow> address list \<Rightarrow> go_int" where
  "indexOf a [] = - 1"
| "indexOf a (x # xs) =
     (if x = a then 0 else let i = indexOf a xs in if i = - 1 then - 1 else i + 1)"

definition roundRobin :: "(RoundRobin, address, unit SealedHeader_ext) collab" where
  "roundRobin =
     \<lparr>extraVanity = 32, extraSeal = 65,
      ecrecover = (\<lambda>h cache. case Signer h of
                     None \<Rightarrow> Inl (errExternal ''invalid signature'')
                   | Some a \<Rightarrow> Inr a),
      HeaderHash = (\<lambda>h. ucast (Header.Number h)),
      ParseValidators = (\<lambda>bs. (map ucast bs,
                     if length bs mod 2 = 1 then Some (errExternal ''invalid validators bytes'')
                     else None)),
      getUpdatedValidatorSet = (\<lambda>vs new. if new = [] then vs else \<lparr>members = new, turn = 0\<rparr>),
      NewValidatorSet = (\<lambda>vals. \<lparr>members = vals, turn = 0\<rparr>),
      IncrementProposerPriority =
        (\<lambda>vs steps. vs\<lparr>turn := (turn vs + nat steps) mod length (members vs)\<rparr>),
      updateTotalVotingPower = (\<lambda>vs. vs),
      Copy = (\<lambda>vs. vs),
      HasAddress = (\<lambda>vs bs. bs \<in> set (map address_Bytes (members vs))),
      GetProposer = (\<lambda>vs. if turn vs < length (members vs) then members vs ! turn vs else 0),
      GetByAddress = (\<lambda>vs a. indexOf a (members vs)),
      Validators = members,
      Address = (\<lambda>v. v)\<rparr>"

text \<open>
  The scenario of section 8: three validators \<open>[A, B, C]\<close> with proposer \<open>A\<close>, a
  snapshot at height 10, and a header at a given height sealed by a given signer.
\<close>

definition addrA :: address where "addrA = 0xA"
definition addrB :: address where "addrB = 0xB"
definition addrC :: address where "addrC = 0xC"

definition scenarioSnapshot :: "uint64 \<Rightarrow> RoundRobin Snapshot" where
  "scenarioSnapshot sprint =
     \<lparr>config = \<lparr>Sprint = sprint\<rparr>, ethAPI = 0, sigcache = 0, Snapshot.Number = 10, Hash = 10,
      ValidatorSet = \<lparr>members = [addrA, addrB, addrC], turn = 0\<rparr>, Recents = Map.empty\<rparr>"

definition sealedHeader :: "uint64 \<Rightarrow> byte list \<Rightarrow> address \<Rightarrow> SealedHeader" where
  "sealedHeader n extra signer = \<lparr>Header.Number = n, Extra = extra, Signer = Some signer\<rparr>"

text \<open>
  An extra-data field for the last header of a sprint: 32 bytes of vanity, the candidate
  validators \<open>B\<close> and \<open>C\<close>, 65 bytes of seal.
\<close>

definition swapExtra :: "byte list" where
  "swapExtra = replicate 32 0 @ [0xB, 0xC] @ replicate 65 0"

subsection \<open>store and loadSnapshot\<close>








subsection \<open>apply on a heap\<close>

text \<open>
  In Go a \<^verbatim>\<open>*Snapshot\<close> points to a struct that holds a pointer to the validator set
  and a map, which is a reference too. Whether \<^verbatim>\<open>apply\<close> changes its input is a
  question about these references, so this part of the model keeps them: a heap holds
  the snapshot structs, the validator sets and the maps, each under its address, and
  every statement of \<^verbatim>\<open>copy\<close> and \<^verbatim>\<open>apply\<close> becomes a read, a write or an allocation.
  A nil pointer is an address with no object; a nil map can be read and not written.

  Modelled from the spec (section 6): \<open>Copy\<close> makes a new validator set that shares
  nothing with the old one (a deep copy); \<open>getUpdatedValidatorSet\<close> and
  \<open>IncrementProposerPriority\<close> change the set they are handed and no other object;
  \<open>HasAddress\<close>, \<open>GetProposer\<close> and \<open>GetByAddress\<close> only read.
\<close>

record SnapshotCell =
  cConfig :: BorConfig
  cEthAPI :: ptr
  cSigcache :: ptr
  cNumber :: uint64
  cHash :: hash
  cValidatorSet :: ptr
  cRecents :: ptr

record 'vs heap =
  snapshots :: "ptr \<rightharpoonup> SnapshotCell"
  valsets :: "ptr \<rightharpoonup> 'vs"
  maps :: "ptr \<rightharpoonup> (uint64 \<rightharpoonup> address)"
  nextPtr :: ptr

type_synonym ('vs, 'a) action = "'vs heap \<Rightarrow> 'vs heap \<times> (error + 'a)"

definition returnH :: "'a \<Rightarrow> ('vs, 'a) action" where
  "returnH x = (\<lambda>h. (h, Inr x))"

definition failH :: "error \<Rightarrow> ('vs, 'a) action" where
  "failH e = (\<lambda>h. (h, Inl e))"

definition bindH :: "('vs, 'a) action \<Rightarrow> ('a \<Rightarrow> ('vs, 'b) action) \<Rightarrow> ('vs, 'b) action" where
  "bindH m f = (\<lambda>h. case m h of (h', Inl e) \<Rightarrow> (h', Inl e) | (h', Inr x) \<Rightarrow> f x h')"

definition liftH :: "error + 'a \<Rightarrow> ('vs, 'a) action" where
  "liftH r = (\<lambda>h. (h, r))"

text \<open>Reading through a pointer, and assigning to a field through it.\<close>

definition readSnapshot :: "ptr \<Rightarrow> ('vs, SnapshotCell) action" where
  "readSnapshot p = (\<lambda>h. case snapshots h p of
       None \<Rightarrow> (h, Inl panicNilPointer) | Some cell \<Rightarrow> (h, Inr cell))"

definition writeSnapshot :: "ptr \<Rightarrow> (SnapshotCell \<Rightarrow> SnapshotCell) \<Rightarrow> ('vs, unit) action" where
  "writeSnapshot p f = (\<lambda>h. case snapshots h p of
       None \<Rightarrow> (h, Inl panicNilPointer)
     | Some cell \<Rightarrow> (h\<lparr>snapshots := (snapshots h)(p \<mapsto> f cell)\<rparr>, Inr ()))"

definition readValSet :: "ptr \<Rightarrow> ('vs, 'vs) action" where
  "readValSet p = (\<lambda>h. case valsets h p of
       None \<Rightarrow> (h, Inl panicNilPointer) | Some vs \<Rightarrow> (h, Inr vs))"

definition writeValSet :: "ptr \<Rightarrow> ('vs \<Rightarrow> 'vs) \<Rightarrow> ('vs, unit) action" where
  "writeValSet p f = (\<lambda>h. case valsets h p of
       None \<Rightarrow> (h, Inl panicNilPointer)
     | Some vs \<Rightarrow> (h\<lparr>valsets := (valsets h)(p \<mapsto> f vs)\<rparr>, Inr ()))"

text \<open>\<^verbatim>\<open>range m\<close>, \<^verbatim>\<open>delete(m, k)\<close> and \<^verbatim>\<open>m[k] = v\<close> on the map behind a reference.\<close>

definition rangeMap :: "ptr \<Rightarrow> ('vs, uint64 \<rightharpoonup> address) action" where
  "rangeMap p = (\<lambda>h. case maps h p of None \<Rightarrow> (h, Inr Map.empty) | Some m \<Rightarrow> (h, Inr m))"

definition deleteKey :: "ptr \<Rightarrow> uint64 \<Rightarrow> ('vs, unit) action" where
  "deleteKey p k = (\<lambda>h. case maps h p of
       None \<Rightarrow> (h, Inr ())
     | Some m \<Rightarrow> (h\<lparr>maps := (maps h)(p \<mapsto> m(k := None))\<rparr>, Inr ()))"

definition assignKey :: "ptr \<Rightarrow> uint64 \<Rightarrow> address \<Rightarrow> ('vs, unit) action" where
  "assignKey p k v = (\<lambda>h. case maps h p of
       None \<Rightarrow> (h, Inl panicNilMap)
     | Some m \<Rightarrow> (h\<lparr>maps := (maps h)(p \<mapsto> m(k \<mapsto> v))\<rparr>, Inr ()))"

text \<open>
  The loop \<^verbatim>\<open>for block, signer := range entries { m[block] = signer }\<close>: with no
  entry it assigns nothing, so a nil map is no panic then.
\<close>

definition assignAll :: "ptr \<Rightarrow> (uint64 \<rightharpoonup> address) \<Rightarrow> ('vs, unit) action" where
  "assignAll p entries = (\<lambda>h. case maps h p of
       None \<Rightarrow> (h, if entries = Map.empty then Inr () else Inl panicNilMap)
     | Some m \<Rightarrow> (h\<lparr>maps := (maps h)(p \<mapsto> m ++ entries)\<rparr>, Inr ()))"

text \<open>Allocation takes the next free address.\<close>

definition newSnapshotCell :: "SnapshotCell \<Rightarrow> ('vs, ptr) action" where
  "newSnapshotCell cell = (\<lambda>h.
     (h\<lparr>snapshots := (snapshots h)(nextPtr h \<mapsto> cell), nextPtr := nextPtr h + 1\<rparr>,
      Inr (nextPtr h)))"

definition newValSet :: "'vs \<Rightarrow> ('vs, ptr) action" where
  "newValSet vs = (\<lambda>h.
     (h\<lparr>valsets := (valsets h)(nextPtr h \<mapsto> vs), nextPtr := nextPtr h + 1\<rparr>, Inr (nextPtr h)))"

definition makeMap :: "('vs, ptr) action" where
  "makeMap = (\<lambda>h.
     (h\<lparr>maps := (maps h)(nextPtr h \<mapsto> Map.empty), nextPtr := nextPtr h + 1\<rparr>, Inr (nextPtr h)))"

text \<open>
  \<^verbatim>\<open>s.ValidatorSet.Copy()\<close>, \<^verbatim>\<open>getUpdatedValidatorSet(v, newVals)\<close> and
  \<^verbatim>\<open>v.IncrementProposerPriority(1)\<close> on the heap.
\<close>

definition CopyH :: "('vs, 'val, 'h) collab \<Rightarrow> ptr \<Rightarrow> ('vs, ptr) action" where
  "CopyH c p = bindH (readValSet p) (\<lambda>vs. newValSet (Copy c vs))"

definition getUpdatedValidatorSetH ::
  "('vs, 'val, 'h) collab \<Rightarrow> ptr \<Rightarrow> 'val list \<Rightarrow> ('vs, ptr) action" where
  "getUpdatedValidatorSetH c p newVals =
     bindH (writeValSet p (\<lambda>vs. getUpdatedValidatorSet c vs newVals)) (\<lambda>_. returnH p)"

definition IncrementProposerPriorityH ::
  "('vs, 'val, 'h) collab \<Rightarrow> ptr \<Rightarrow> int \<Rightarrow> ('vs, unit) action" where
  "IncrementProposerPriorityH c p steps =
     writeValSet p (\<lambda>vs. IncrementProposerPriority c vs steps)"

text \<open>\<^verbatim>\<open>copy\<close> (lines 104 to 119).\<close>

definition copyH :: "('vs, 'val, 'h) collab \<Rightarrow> ptr \<Rightarrow> ('vs, ptr) action" where
  "copyH c s =
     bindH (readSnapshot s) (\<lambda>cell.
     bindH (CopyH c (cValidatorSet cell)) (\<lambda>vp.
     bindH makeMap (\<lambda>rp.
     bindH (newSnapshotCell
              \<lparr>cConfig = cConfig cell, cEthAPI = cEthAPI cell, cSigcache = cSigcache cell,
               cNumber = cNumber cell, cHash = cHash cell,
               cValidatorSet = vp, cRecents = rp\<rparr>) (\<lambda>cpy.
     bindH (rangeMap (cRecents cell)) (\<lambda>recents.
     bindH (readSnapshot cpy) (\<lambda>cpyCell.
     bindH (assignAll (cRecents cpyCell) recents) (\<lambda>_.
     returnH cpy)))))))"

text \<open>
  The body of the loop of \<^verbatim>\<open>apply\<close> (lines 182 to 246), statement by statement, in
  the three parts of the model above: the eviction, the change of the validator set,
  and the body as a whole with the checks and the record of the signer.
\<close>

definition evictOldestH :: "ptr \<Rightarrow> ptr \<Rightarrow> uint64 \<Rightarrow> ('vs, unit) action" where
  "evictOldestH s snap number =
     bindH (readSnapshot s) (\<lambda>sCell.
     if Sprint (cConfig sCell) \<le> number \<and> 0 \<le> number - Sprint (cConfig sCell)
     then bindH (readSnapshot snap) (\<lambda>cell.
            deleteKey (cRecents cell) (number - Sprint (cConfig sCell)))
     else returnH ())"

definition changeValidatorSetH ::
  "('vs, 'val, 'h) collab \<Rightarrow> ptr \<Rightarrow> ptr \<Rightarrow> 'h Header_scheme \<Rightarrow> ('vs, unit) action" where
  "changeValidatorSetH c s snap header =
     (let number = Header.Number header in
      bindH (readSnapshot s) (\<lambda>sCell.
      if 0 < number \<and> Sprint (cConfig sCell) = 0 then failH panicDivideByZero
      else if 0 < number \<and> (number + 1) mod Sprint (cConfig sCell) = 0 then
        if length (Extra header) < extraVanity c + extraSeal c then failH panicSliceBounds
        else
          let validatorBytes =
                take (length (Extra header) - extraSeal c - extraVanity c)
                     (drop (extraVanity c) (Extra header));
              newVals = fst (ParseValidators c validatorBytes)
          in bindH (readSnapshot snap) (\<lambda>cell.
             bindH (CopyH c (cValidatorSet cell)) (\<lambda>cp.
             bindH (getUpdatedValidatorSetH c cp newVals) (\<lambda>v.
             bindH (IncrementProposerPriorityH c v 1) (\<lambda>_.
             writeSnapshot snap (\<lambda>cell. cell\<lparr>cValidatorSet := v\<rparr>)))))
      else returnH ()))"

definition applyHeaderH ::
  "('vs, 'val, 'h) collab \<Rightarrow> ptr \<Rightarrow> ptr \<Rightarrow> 'h Header_scheme \<Rightarrow> ('vs, unit) action" where
  "applyHeaderH c s snap header =
     (let number = Header.Number header in
      bindH (evictOldestH s snap number) (\<lambda>_.
      bindH (readSnapshot s) (\<lambda>sCell.
      bindH (liftH (ecrecover c header (cSigcache sCell))) (\<lambda>signer.
      bindH (changeValidatorSetH c s snap header) (\<lambda>_.
      bindH (readSnapshot snap) (\<lambda>cell.
      bindH (readValSet (cValidatorSet cell)) (\<lambda>vs.
      if \<not> HasAddress c vs (address_Bytes signer) then failH errUnauthorizedSigner
      else if outOfTurn c vs signer then failH errRecentlySigned
      else assignKey (cRecents cell) number signer)))))))"

fun applyHeadersH ::
  "('vs, 'val, 'h) collab \<Rightarrow> ptr \<Rightarrow> ptr \<Rightarrow> 'h Header_scheme list \<Rightarrow> ('vs, unit) action" where
  "applyHeadersH c s snap [] = returnH ()"
| "applyHeadersH c s snap (header # headers) =
     bindH (applyHeaderH c s snap header) (\<lambda>_. applyHeadersH c s snap headers)"

text \<open>\<^verbatim>\<open>apply\<close> (lines 165 to 251): the result is the pointer it returns.\<close>

definition applyH ::
  "('vs, 'val, 'h) collab \<Rightarrow> ptr \<Rightarrow> 'h Header_scheme list \<Rightarrow> ('vs, ptr) action" where
  "applyH c s headers =
     (if length headers = 0 then returnH s
      else if \<not> sanityCheck headers then failH errOutOfRangeChain
      else
        bindH (readSnapshot s) (\<lambda>sCell.
        if Header.Number (headers ! 0) \<noteq> cNumber sCell + 1 then failH errOutOfRangeChain
        else
          bindH (copyH c s) (\<lambda>snap.
          bindH (applyHeadersH c s snap headers) (\<lambda>_.
          bindH (writeSnapshot snap
                   (\<lambda>cell. cell\<lparr>cNumber := cNumber cell + word_of_nat (length headers)\<rparr>)) (\<lambda>_.
          bindH (writeSnapshot snap
                   (\<lambda>cell. cell\<lparr>cHash := HeaderHash c (headers ! (length headers - 1))\<rparr>)) (\<lambda>_.
          returnH snap))))))"

text \<open>
  The snapshot a pointer stands for: the struct with the validator set and the map in
  place of the references to them.
\<close>

definition snapshotAt :: "'vs heap \<Rightarrow> ptr \<Rightarrow> 'vs Snapshot option" where
  "snapshotAt h p =
     (case snapshots h p of
        None \<Rightarrow> None
      | Some cell \<Rightarrow>
          (case valsets h (cValidatorSet cell) of
             None \<Rightarrow> None
           | Some vs \<Rightarrow>
               (case maps h (cRecents cell) of
                  None \<Rightarrow> None
                | Some recents \<Rightarrow>
                    Some \<lparr>config = cConfig cell, ethAPI = cEthAPI cell, sigcache = cSigcache cell,
                          Snapshot.Number = cNumber cell, Hash = cHash cell,
                          ValidatorSet = vs, Recents = recents\<rparr>)))"

text \<open>
  The weakest precondition of an action: the heap it starts from is such that it ends
  in a heap that satisfies \<open>Q x\<close> when it returns \<open>x\<close> and \<open>E e\<close> when it fails with
  \<open>e\<close>.
\<close>

definition wp ::
  "('vs, 'a) action \<Rightarrow> ('a \<Rightarrow> 'vs heap \<Rightarrow> bool) \<Rightarrow> (error \<Rightarrow> 'vs heap \<Rightarrow> bool) \<Rightarrow> 'vs heap \<Rightarrow> bool" where
  "wp m Q E h = (case m h of (h', Inl e) \<Rightarrow> E e h' | (h', Inr x) \<Rightarrow> Q x h')"

text \<open>Nothing that was allocated below an address has changed between two heaps.\<close>

definition unchangedBelow :: "ptr \<Rightarrow> 'vs heap \<Rightarrow> 'vs heap \<Rightarrow> bool" where
  "unchangedBelow n h h' \<longleftrightarrow>
     (\<forall>p. p < n \<longrightarrow>
        snapshots h' p = snapshots h p \<and> valsets h' p = valsets h p \<and> maps h' p = maps h p)"

text \<open>
  The heap \<open>h\<close> extends \<open>h0\<close> beyond the address \<open>n\<close>; and, while \<^verbatim>\<open>apply\<close> builds its
  result: the snapshot under construction and the two objects it refers to lie at
  addresses from \<open>n\<close> on, below the next free one, and the snapshot stands for \<open>v\<close>.
\<close>

definition extends :: "ptr \<Rightarrow> 'vs heap \<Rightarrow> 'vs heap \<Rightarrow> bool" where
  "extends n h0 h \<longleftrightarrow> n \<le> nextPtr h \<and> unchangedBelow n h0 h"

definition building :: "ptr \<Rightarrow> 'vs heap \<Rightarrow> ptr \<Rightarrow> 'vs Snapshot \<Rightarrow> 'vs heap \<Rightarrow> bool" where
  "building n h0 snap v h \<longleftrightarrow>
     extends n h0 h \<and> n \<le> snap \<and> snap < nextPtr h \<and>
     (\<exists>cell. snapshots h snap = Some cell
        \<and> n \<le> cValidatorSet cell \<and> cValidatorSet cell < nextPtr h
        \<and> n \<le> cRecents cell \<and> cRecents cell < nextPtr h) \<and>
     snapshotAt h snap = Some v"

text \<open>
  The scenario on the heap: the snapshot struct at address 0, its validator set at
  address 1, its empty map at address 2.
\<close>

definition scenarioHeap :: "uint64 \<Rightarrow> RoundRobin heap" where
  "scenarioHeap sprint =
     \<lparr>snapshots = [0 \<mapsto> \<lparr>cConfig = \<lparr>Sprint = sprint\<rparr>, cEthAPI = 0, cSigcache = 0,
                          cNumber = 10, cHash = 10, cValidatorSet = 1, cRecents = 2\<rparr>],
      valsets = [1 \<mapsto> \<lparr>members = [addrA, addrB, addrC], turn = 0\<rparr>],
      maps = [2 \<mapsto> Map.empty],
      nextPtr = 3\<rparr>"

section \<open>Properties\<close>

subsection \<open>Go's integers and byte arrays\<close>

lemma sint_of_int_64:
  "- (2 ^ 63) \<le> i \<Longrightarrow> i < 2 ^ 63 \<Longrightarrow> sint (word_of_int i :: 64 word) = i"
  by (simp add: signed_of_int signed_take_bit_int_eq_self)

lemma sdiv_nonneg_2: "0 \<le> (n::int) \<Longrightarrow> n sdiv 2 = n div 2"
  by (simp add: signed_divide_int_def sgn_if)

lemma be_bytes_bit:
  assumes "k div 8 < n"
  shows "bit (be_bytes n w ! (n - Suc (k div 8))) (k mod 8) = bit w k"
proof -
  have i: "n - Suc (k div 8) < n" using assms by simp
  have e: "n - Suc (n - Suc (k div 8)) = k div 8" using assms by simp
  have "be_bytes n w ! (n - Suc (k div 8)) = ucast (drop_bit (8 * (k div 8)) w)"
    using i by (simp add: be_bytes_def e)
  then show ?thesis
    by (simp add: bit_ucast_iff bit_drop_bit_eq)
qed

lemma be_bytes_inj:
  fixes v w :: "'a::len word"
  assumes len: "LENGTH('a) \<le> 8 * n" and eq: "be_bytes n v = be_bytes n w"
  shows "v = w"
proof (rule bit_word_eqI)
  fix k assume "k < LENGTH('a)"
  with len have "k div 8 < n" by auto
  then have "bit (be_bytes n v ! (n - Suc (k div 8))) (k mod 8) = bit v k"
    and "bit (be_bytes n w ! (n - Suc (k div 8))) (k mod 8) = bit w k"
    by (rule be_bytes_bit)+
  with eq show "bit v k = bit w k" by simp
qed

lemma address_Bytes_eq_iff: "address_Bytes a = address_Bytes b \<longleftrightarrow> a = b"
  by (auto simp: address_Bytes_def dest: be_bytes_inj [rotated])

lemma hash_Bytes_eq_iff: "hash_Bytes a = hash_Bytes b \<longleftrightarrow> a = b"
  by (auto simp: hash_Bytes_def dest: be_bytes_inj [rotated])

subsection \<open>The sanity check of apply\<close>

lemma sanityCheck_iff:
  "sanityCheck hs \<longleftrightarrow>
     (\<forall>i. i + 1 < length hs \<longrightarrow> Header.Number (hs ! (i + 1)) = Header.Number (hs ! i) + 1)"
proof (induction hs rule: sanityCheck.induct)
  case (1 h0 h1 hs)
  show ?case
  proof (cases "Header.Number h1 = Header.Number h0 + 1")
    case False
    then have "\<not> (\<forall>i. i + 1 < length (h0 # h1 # hs) \<longrightarrow>
        Header.Number ((h0 # h1 # hs) ! (i + 1)) = Header.Number ((h0 # h1 # hs) ! i) + 1)"
      by (auto intro: exI [of _ 0])
    with False show ?thesis by simp
  next
    case True
    have "(\<forall>i. i + 1 < length (h0 # h1 # hs) \<longrightarrow>
        Header.Number ((h0 # h1 # hs) ! (i + 1)) = Header.Number ((h0 # h1 # hs) ! i) + 1)
      \<longleftrightarrow> (\<forall>i. i + 1 < length (h1 # hs) \<longrightarrow>
        Header.Number ((h1 # hs) ! (i + 1)) = Header.Number ((h1 # hs) ! i) + 1)"
      (is "?L \<longleftrightarrow> ?R")
    proof
      assume l: ?L
      show ?R
      proof (intro allI impI)
        fix i assume "i + 1 < length (h1 # hs)"
        with l [rule_format, of "Suc i"] show
          "Header.Number ((h1 # hs) ! (i + 1)) = Header.Number ((h1 # hs) ! i) + 1" by simp
      qed
    next
      assume r: ?R
      show ?L
      proof (intro allI impI)
        fix i assume i: "i + 1 < length (h0 # h1 # hs)"
        show "Header.Number ((h0 # h1 # hs) ! (i + 1)) = Header.Number ((h0 # h1 # hs) ! i) + 1"
        proof (cases i)
          case 0
          with True show ?thesis by simp
        next
          case (Suc j)
          with i r [rule_format, of j] show ?thesis by simp
        qed
      qed
    qed
    with 1 True show ?thesis by simp
  qed
qed simp_all

text \<open>
  C3. For every snapshot and every non-empty list of headers in which some adjacent pair
  breaks \<open>headers[i+1].number = headers[i].number + 1\<close>, or whose first header is not
  numbered \<open>s.Number + 1\<close>, \<open>apply\<close> returns the out-of-range error and no snapshot.
  The numbers are the \<^verbatim>\<open>uint64\<close> values the code compares.
\<close>

theorem apply_out_of_range:
  assumes "headers \<noteq> []"
    and "(\<exists>i. i + 1 < length headers \<and>
            Header.Number (headers ! (i + 1)) \<noteq> Header.Number (headers ! i) + 1)
         \<or> Header.Number (headers ! 0) \<noteq> Snapshot.Number s + 1"
  shows "Snapshot_apply c s headers = Inl errOutOfRangeChain"
  using assms by (auto simp: Snapshot_apply_def sanityCheck_iff)

theorem apply_out_of_range_witness:
  "[sealedHeader 11 [] addrA, sealedHeader 13 [] addrA] \<noteq> [] \<and>
   Header.Number ([sealedHeader 11 [] addrA, sealedHeader 13 [] addrA] ! (0 + 1))
     \<noteq> Header.Number ([sealedHeader 11 [] addrA, sealedHeader 13 [] addrA] ! 0) + 1 \<and>
   Snapshot_apply roundRobin (scenarioSnapshot 64)
     [sealedHeader 11 [] addrA, sealedHeader 13 [] addrA] = Inl errOutOfRangeChain"
  using apply_out_of_range
    [of "[sealedHeader 11 [] addrA, sealedHeader 13 [] addrA]" "scenarioSnapshot 64" roundRobin]
  by (simp add: sealedHeader_def exI [of _ 0])

subsection \<open>The turn check\<close>

lemma outOfTurn_int:
  fixes c :: "('vs, 'val, 'h) collab"
  assumes total: "length (Validators c vs) < 2 ^ 62"
    and p: "- (2 ^ 62) \<le> sint (GetByAddress c vs (Address c (GetProposer c vs)))"
           "sint (GetByAddress c vs (Address c (GetProposer c vs))) < 2 ^ 62"
    and g: "- (2 ^ 62) \<le> sint (GetByAddress c vs signer)"
           "sint (GetByAddress c vs signer) < 2 ^ 62"
  shows "outOfTurn c vs signer \<longleftrightarrow>
     sint (GetByAddress c vs signer) \<noteq> sint (GetByAddress c vs (Address c (GetProposer c vs))) \<and>
     0 < turnLimit (length (Validators c vs)) \<and>
     turnLimit (length (Validators c vs)) <
       turnDistance (length (Validators c vs))
         (sint (GetByAddress c vs (Address c (GetProposer c vs)))) (sint (GetByAddress c vs signer))"
proof -
  define n where "n = int (length (Validators c vs))"
  define pw where "pw = GetByAddress c vs (Address c (GetProposer c vs))"
  define gw where "gw = GetByAddress c vs signer"
  define pi where "pi = sint pw"
  define gi where "gi = sint gw"
  have n: "0 \<le> n" "n < 2 ^ 62" using total by (simp_all add: n_def)
  have pwi: "pw = word_of_int pi" and gwi: "gw = word_of_int gi"
    by (simp_all add: pi_def gi_def)
  have pb: "- (2 ^ 62) \<le> pi" "pi < 2 ^ 62" using p by (simp_all add: pi_def pw_def)
  have gb: "- (2 ^ 62) \<le> gi" "gi < 2 ^ 62" using g by (simp_all add: gi_def gw_def)
  have len: "go_len (Validators c vs) = word_of_int n"
    by (simp add: go_len_def n_def)
  have slen: "sint (word_of_int n :: 64 word) = n"
    using n by (intro sint_of_int_64) auto
  have quot: "go_quot (word_of_int n) 2 = word_of_int (n div 2)"
    using n by (simp add: go_quot_def slen sdiv_nonneg_2)
  define lw :: "64 word" where "lw = word_of_int (n - (n div 2 + 1))"
  have lim: "(word_of_int n :: 64 word) - (word_of_int (n div 2) + 1) = lw"
    by (simp add: lw_def)
  have slim: "sint lw = n - (n div 2 + 1)"
    unfolding lw_def using n by (intro sint_of_int_64) auto
  have neq: "pw \<noteq> gw \<longleftrightarrow> gi \<noteq> pi"
    unfolding pi_def gi_def by (metis signed_word_eqI)
  have less: "gw <s pw \<longleftrightarrow> gi < pi"
    by (simp add: word_sless_alt pi_def gi_def)
  have d1: "sint (word_of_int gi + word_of_int n - word_of_int pi :: 64 word) = gi + n - pi"
    if "gi < pi"
  proof -
    have "word_of_int gi + word_of_int n - word_of_int pi = (word_of_int (gi + n - pi) :: 64 word)"
      by simp
    moreover have "sint (word_of_int (gi + n - pi) :: 64 word) = gi + n - pi"
      using n pb gb that by (intro sint_of_int_64) auto
    ultimately show ?thesis by simp
  qed
  have d2: "sint (word_of_int gi - word_of_int pi :: 64 word) = gi - pi"
  proof -
    have "word_of_int gi - word_of_int pi = (word_of_int (gi - pi) :: 64 word)"
      by simp
    moreover have "sint (word_of_int (gi - pi) :: 64 word) = gi - pi"
      using pb gb by (intro sint_of_int_64) auto
    ultimately show ?thesis by simp
  qed
  have "outOfTurn c vs signer \<longleftrightarrow>
      (pw \<noteq> gw \<and> 0 <s lw \<and> lw <s (if gw <s pw then gw + word_of_int n else gw) - pw)"
    unfolding outOfTurn_def Let_def pw_def [symmetric] gw_def [symmetric] len quot lim
    by auto
  also have "\<dots> \<longleftrightarrow> (gi \<noteq> pi \<and> 0 < n - (n div 2 + 1) \<and>
       n - (n div 2 + 1) < (if gi < pi then gi + n - pi else gi - pi))"
    unfolding neq less
    by (simp add: word_sless_alt slim) (simp add: pwi gwi d1 d2)
  also have "\<dots> \<longleftrightarrow> (gi \<noteq> pi \<and> 0 < turnLimit (length (Validators c vs)) \<and>
       turnLimit (length (Validators c vs)) < turnDistance (length (Validators c vs)) pi gi)"
    by (auto simp: turnLimit_def turnDistance_def n_def Let_def)
  finally show ?thesis
    by (simp add: pi_def gi_def pw_def gw_def)
qed

lemma applyHeaders_append:
  "applyHeaders c s snap (xs @ ys) =
     (case applyHeaders c s snap xs of Inl e \<Rightarrow> Inl e | Inr snap' \<Rightarrow> applyHeaders c s snap' ys)"
  by (induction xs arbitrary: snap) (auto split: sum.splits)

lemma Snapshot_apply_run:
  assumes "headers = pre @ header # post"
    and "sanityCheck headers"
    and "Header.Number (headers ! 0) = Snapshot.Number s + 1"
    and "applyHeaders c s (copy c s) pre = Inr snap0"
  shows "Snapshot_apply c s headers =
     (case applyHeader c s snap0 header of
        Inl e \<Rightarrow> Inl e
      | Inr snap' \<Rightarrow>
          (case applyHeaders c s snap' post of
             Inl e \<Rightarrow> Inl e
           | Inr snap \<Rightarrow>
               Inr (snap\<lparr>Snapshot.Number := Snapshot.Number snap + word_of_nat (length headers),
                          Hash := HeaderHash c (headers ! (length headers - 1))\<rparr>)))"
  using assms by (simp add: Snapshot_apply_def applyHeaders_append split: sum.splits)

lemmas scenario_simps =
  Snapshot_apply_def sealedHeader_def scenarioSnapshot_def copy_def roundRobin_def
  applyHeader_def evictOldest_def changeValidatorSet_def outOfTurn_def address_Bytes_eq_iff
  addrA_def addrB_def addrC_def go_len_def go_quot_def signed_divide_int_def word_sless_alt
  turnLimit_def turnDistance_def

text \<open>
  C1. While \<open>apply\<close> folds the run, at each header that has passed signer recovery, the
  epoch step and the membership test: with \<open>n\<close> the number of validators,
  \<open>proposerIdx\<close> and \<open>signerIdx\<close> the indices of the proposer and of the recovered
  signer, and the limit \<open>n - (n/2 + 1)\<close>, the call fails with the out-of-turn error
  exactly when the indices differ, the limit is positive and the cyclic forward distance
  exceeds the limit; otherwise the signer is recorded and the fold goes on with the
  rest of the run. The code computes in Go's 64-bit \<^verbatim>\<open>int\<close>; the bounds say that the
  validator count and the indices are far from overflowing it.
\<close>

theorem apply_turn_check:
  fixes c :: "('vs, 'val, 'h) collab"
  assumes run: "headers = pre @ header # post"
    and sane: "sanityCheck headers"
    and first: "Header.Number (headers ! 0) = Snapshot.Number s + 1"
    and reach: "applyHeaders c s (copy c s) pre = Inr snap0"
    and recover: "ecrecover c header (sigcache s) = Inr signer"
    and change: "changeValidatorSet c s (evictOldest s snap0 (Header.Number header)) header = Inr snap"
    and member: "HasAddress c (ValidatorSet snap) (address_Bytes signer)"
    and total: "n = length (Validators c (ValidatorSet snap))"
    and proposerIdx: "proposerIdx =
          sint (GetByAddress c (ValidatorSet snap) (Address c (GetProposer c (ValidatorSet snap))))"
    and signerIdx: "signerIdx = sint (GetByAddress c (ValidatorSet snap) signer)"
    and bounds: "n < 2 ^ 62" "- (2 ^ 62) \<le> proposerIdx" "proposerIdx < 2 ^ 62"
          "- (2 ^ 62) \<le> signerIdx" "signerIdx < 2 ^ 62"
  shows "Snapshot_apply c s headers =
     (if signerIdx \<noteq> proposerIdx \<and> 0 < turnLimit n
          \<and> turnLimit n < turnDistance n proposerIdx signerIdx
      then Inl errRecentlySigned
      else case applyHeaders c s
                  (snap\<lparr>Recents := (Recents snap)(Header.Number header \<mapsto> signer)\<rparr>) post of
             Inl e \<Rightarrow> Inl e
           | Inr r \<Rightarrow>
               Inr (r\<lparr>Snapshot.Number := Snapshot.Number r + word_of_nat (length headers),
                       Hash := HeaderHash c (headers ! (length headers - 1))\<rparr>))"
proof -
  have turn: "outOfTurn c (ValidatorSet snap) signer \<longleftrightarrow>
      signerIdx \<noteq> proposerIdx \<and> 0 < turnLimit n
        \<and> turnLimit n < turnDistance n proposerIdx signerIdx"
    unfolding total proposerIdx signerIdx
    using bounds by (intro outOfTurn_int) (simp_all add: total proposerIdx signerIdx)
  have step: "applyHeader c s snap0 header =
      (if outOfTurn c (ValidatorSet snap) signer then Inl errRecentlySigned
       else Inr (snap\<lparr>Recents := (Recents snap)(Header.Number header \<mapsto> signer)\<rparr>))"
    using recover change member by (simp add: applyHeader_def)
  show ?thesis
    unfolding Snapshot_apply_run [OF run sane first reach] step turn by simp
qed


theorem apply_turn_check_witness:
  "turnLimit 3 = 1 \<and> turnDistance 3 0 2 = 2 \<and>
   Snapshot_apply roundRobin (scenarioSnapshot 64)
     [sealedHeader 11 [] addrA, sealedHeader 12 [] addrC] = Inl errRecentlySigned"
proof -
  let ?s = "scenarioSnapshot 64"
  let ?snap = "?s\<lparr>Recents := [11 \<mapsto> addrA]\<rparr>"
  let ?pre = "[sealedHeader 11 [] addrA]"
  let ?h = "sealedHeader 12 [] addrC"
  have run: "?pre @ [?h] = ?pre @ ?h # []" by simp
  have sane: "sanityCheck (?pre @ [?h])" by (simp add: sealedHeader_def)
  have first: "Header.Number ((?pre @ [?h]) ! 0) = Snapshot.Number ?s + 1"
    by (simp add: sealedHeader_def scenarioSnapshot_def)
  have reach: "applyHeaders roundRobin ?s (copy roundRobin ?s) ?pre = Inr ?snap"
    by (simp add: scenario_simps)
  have recover: "ecrecover roundRobin ?h (sigcache ?s) = Inr addrC"
    by (simp add: scenario_simps)
  have change: "changeValidatorSet roundRobin ?s (evictOldest ?s ?snap (Header.Number ?h)) ?h
      = Inr ?snap"
    by (simp add: scenario_simps)
  have member: "HasAddress roundRobin (ValidatorSet ?snap) (address_Bytes addrC)"
    by (simp add: scenario_simps)
  have n: "3 = length (Validators roundRobin (ValidatorSet ?snap))"
    by (simp add: scenario_simps)
  have p: "0 = sint (GetByAddress roundRobin (ValidatorSet ?snap)
        (Address roundRobin (GetProposer roundRobin (ValidatorSet ?snap))))"
    by (simp add: scenario_simps)
  have g: "2 = sint (GetByAddress roundRobin (ValidatorSet ?snap) addrC)"
    by (simp add: scenario_simps)
  show ?thesis
    using apply_turn_check [OF run sane first reach recover change member n p g]
    by (simp add: turnLimit_def turnDistance_def)
qed

subsection \<open>The change of the validator set\<close>

lemma applyHeader_swap:
  fixes c :: "('vs, 'val, 'h) collab"
  assumes recover: "ecrecover c header (sigcache s) = Inr signer"
    and sprint: "0 < Header.Number header \<Longrightarrow> Sprint (config s) \<noteq> 0"
    and extra: "0 < Header.Number header \<Longrightarrow> (Header.Number header + 1) mod Sprint (config s) = 0
          \<Longrightarrow> extraVanity c + extraSeal c \<le> length (Extra header)"
    and vs': "vs' =
         (if 0 < Header.Number header \<and> (Header.Number header + 1) mod Sprint (config s) = 0
          then IncrementProposerPriority c
                 (getUpdatedValidatorSet c (Copy c (ValidatorSet snap0))
                    (fst (ParseValidators c
                       (take (length (Extra header) - extraSeal c - extraVanity c)
                          (drop (extraVanity c) (Extra header)))))) 1
          else ValidatorSet snap0)"
  shows "applyHeader c s snap0 header =
     (if \<not> HasAddress c vs' (address_Bytes signer) then Inl errUnauthorizedSigner
      else if outOfTurn c vs' signer then Inl errRecentlySigned
      else Inr ((evictOldest s snap0 (Header.Number header))
                 \<lparr>ValidatorSet := vs',
                  Recents := (Recents (evictOldest s snap0 (Header.Number header)))
                               (Header.Number header \<mapsto> signer)\<rparr>))"
proof -
  have ev: "ValidatorSet (evictOldest s snap0 (Header.Number header)) = ValidatorSet snap0"
    by (simp add: evictOldest_def)
  have "changeValidatorSet c s (evictOldest s snap0 (Header.Number header)) header =
      Inr ((evictOldest s snap0 (Header.Number header))\<lparr>ValidatorSet := vs'\<rparr>)"
  proof (cases "0 < Header.Number header \<and> (Header.Number header + 1) mod Sprint (config s) = 0")
    case True
    with sprint extra have "Sprint (config s) \<noteq> 0"
      and "\<not> length (Extra header) < extraVanity c + extraSeal c" by auto
    with True show ?thesis
      unfolding changeValidatorSet_def Let_def vs' ev by (simp only: if_True if_False simp_thms)
  next
    case False
    have "(evictOldest s snap0 (Header.Number header))\<lparr>ValidatorSet := ValidatorSet snap0\<rparr>
        = evictOldest s snap0 (Header.Number header)"
      by (simp add: evictOldest_def)
    moreover from False sprint
    have "\<not> (0 < Header.Number header \<and> Sprint (config s) = 0)" by auto
    ultimately show ?thesis
      using False unfolding changeValidatorSet_def Let_def vs'
      by (simp only: if_True if_False simp_thms)
  qed
  then show ?thesis
    using recover by (simp add: applyHeader_def Let_def)
qed

text \<open>
  C2. \<open>apply\<close> replaces the validator set of the snapshot it builds exactly at a header
  whose number \<open>N\<close> satisfies \<open>N > 0\<close> and \<open>(N + 1) % sprint = 0\<close>: there the candidates
  are parsed from the extra-data without its vanity prefix and its seal suffix, the new
  set is the merge of a copy of the current set with the candidates, advanced by one
  step of proposer priority; at any other header the set stays the one in force. The
  membership test, the turn check and the rest of the fold then run on that set.
\<close>

theorem apply_epoch_swap:
  fixes c :: "('vs, 'val, 'h) collab"
  assumes run: "headers = pre @ header # post"
    and sane: "sanityCheck headers"
    and first: "Header.Number (headers ! 0) = Snapshot.Number s + 1"
    and reach: "applyHeaders c s (copy c s) pre = Inr snap0"
    and recover: "ecrecover c header (sigcache s) = Inr signer"
    and sprint: "0 < Header.Number header \<Longrightarrow> Sprint (config s) \<noteq> 0"
    and extra: "0 < Header.Number header \<Longrightarrow> (Header.Number header + 1) mod Sprint (config s) = 0
          \<Longrightarrow> extraVanity c + extraSeal c \<le> length (Extra header)"
    and vs': "vs' =
         (if 0 < Header.Number header \<and> (Header.Number header + 1) mod Sprint (config s) = 0
          then IncrementProposerPriority c
                 (getUpdatedValidatorSet c (Copy c (ValidatorSet snap0))
                    (fst (ParseValidators c
                       (take (length (Extra header) - extraSeal c - extraVanity c)
                          (drop (extraVanity c) (Extra header)))))) 1
          else ValidatorSet snap0)"
  shows "Snapshot_apply c s headers =
     (if \<not> HasAddress c vs' (address_Bytes signer) then Inl errUnauthorizedSigner
      else if outOfTurn c vs' signer then Inl errRecentlySigned
      else case applyHeaders c s
                  ((evictOldest s snap0 (Header.Number header))
                     \<lparr>ValidatorSet := vs',
                      Recents := (Recents (evictOldest s snap0 (Header.Number header)))
                                   (Header.Number header \<mapsto> signer)\<rparr>) post of
             Inl e \<Rightarrow> Inl e
           | Inr r \<Rightarrow>
               Inr (r\<lparr>Snapshot.Number := Snapshot.Number r + word_of_nat (length headers),
                       Hash := HeaderHash c (headers ! (length headers - 1))\<rparr>))"
proof -
  note step = applyHeader_swap [of c header s signer vs' snap0, OF recover sprint extra vs']
  show ?thesis
    by (simp add: Snapshot_apply_run [OF run sane first reach] step)
qed

theorem apply_epoch_swap_witness:
  "(11 + 1) mod 4 = (0 :: uint64) \<and>
   Snapshot_apply roundRobin (scenarioSnapshot 4) [sealedHeader 11 swapExtra addrC] =
     Inr \<lparr>config = \<lparr>Sprint = 4\<rparr>, ethAPI = 0, sigcache = 0, Snapshot.Number = 11, Hash = 11,
          ValidatorSet = \<lparr>members = [addrB, addrC], turn = 1\<rparr>, Recents = [11 \<mapsto> addrC]\<rparr>"
proof -
  let ?s = "scenarioSnapshot 4"
  let ?h = "sealedHeader 11 swapExtra addrC"
  have run: "[?h] = [] @ ?h # []" by simp
  have sane: "sanityCheck [?h]" by simp
  have first: "Header.Number ([?h] ! 0) = Snapshot.Number ?s + 1"
    by (simp add: sealedHeader_def scenarioSnapshot_def)
  have reach: "applyHeaders roundRobin ?s (copy roundRobin ?s) [] = Inr ?s"
    by (simp add: scenario_simps)
  have recover: "ecrecover roundRobin ?h (sigcache ?s) = Inr addrC"
    by (simp add: scenario_simps)
  have sprint: "Sprint (config ?s) \<noteq> 0" by (simp add: scenarioSnapshot_def)
  have extra: "extraVanity roundRobin + extraSeal roundRobin \<le> length (Extra ?h)"
    by (simp add: roundRobin_def sealedHeader_def swapExtra_def)
  have vs: "\<lparr>members = [addrB, addrC], turn = 1\<rparr> =
         (if 0 < Header.Number ?h \<and> (Header.Number ?h + 1) mod Sprint (config ?s) = 0
          then IncrementProposerPriority roundRobin
                 (getUpdatedValidatorSet roundRobin (Copy roundRobin (ValidatorSet ?s))
                    (fst (ParseValidators roundRobin
                       (take (length (Extra ?h) - extraSeal roundRobin - extraVanity roundRobin)
                          (drop (extraVanity roundRobin) (Extra ?h)))))) 1
          else ValidatorSet ?s)"
    by (simp add: scenario_simps swapExtra_def)
  show ?thesis
    using apply_epoch_swap [OF run sane first reach recover sprint extra vs]
    by (simp add: scenario_simps)
qed

subsection \<open>The scenario of three validators\<close>

text \<open>
  C4, as the specification states it: with validators \<open>[A, B, C]\<close>, proposer \<open>A\<close> and a
  snapshot at height 10, the header at height 11 signed by \<open>B\<close> is said to fail with the
  out-of-turn error because the limit is \<open>3 - (3/2 + 1) = 0\<close>. Go's \<open>3/2\<close> is \<open>1\<close>, so
  the limit is \<open>1\<close>; \<open>B\<close> is at distance \<open>1\<close> and the code accepts the header.
\<close>

theorem scenario_signed_by_B_counterexample:
  "turnLimit 3 = 1 \<and>
   Snapshot_apply roundRobin (scenarioSnapshot 64) [sealedHeader 11 [] addrB] =
     Inr \<lparr>config = \<lparr>Sprint = 64\<rparr>, ethAPI = 0, sigcache = 0, Snapshot.Number = 11, Hash = 11,
          ValidatorSet = \<lparr>members = [addrA, addrB, addrC], turn = 0\<rparr>,
          Recents = [11 \<mapsto> addrB]\<rparr>"
  by (simp add: scenario_simps)

text \<open>
  C4, amended: for a snapshot at height 10 with three validators whose proposer has
  index 0, and a sprint that does not end at height 11, the limit is 1, and the single
  header at height 11 is accepted when its signer is a validator of index 0 (the
  proposer \<open>A\<close>) or of index 1 (\<open>B\<close>, at distance 1); the result records the signer
  in \<open>recents[11]\<close> and stands at height 11. The set the loop reads is the copy made
  by \<open>copy\<close>.
\<close>

theorem scenario_three_validators:
  fixes c :: "('vs, 'val, 'h) collab"
  assumes height: "Snapshot.Number s = 10" "Header.Number header = 11"
    and sprint: "Sprint (config s) \<noteq> 0" "(11 + 1) mod Sprint (config s) \<noteq> 0"
    and three: "length (Validators c (Copy c (ValidatorSet s))) = 3"
    and proposer: "GetByAddress c (Copy c (ValidatorSet s))
                     (Address c (GetProposer c (Copy c (ValidatorSet s)))) = 0"
    and recover: "ecrecover c header (sigcache s) = Inr signer"
    and member: "HasAddress c (Copy c (ValidatorSet s)) (address_Bytes signer)"
    and signer: "GetByAddress c (Copy c (ValidatorSet s)) signer = 0
                 \<or> GetByAddress c (Copy c (ValidatorSet s)) signer = 1"
  shows "Snapshot_apply c s [header] =
     Inr ((evictOldest s (copy c s) 11)
            \<lparr>Recents := (Recents (evictOldest s (copy c s) 11))(11 \<mapsto> signer),
             Snapshot.Number := 11, Hash := HeaderHash c header\<rparr>)"
proof -
  let ?vs = "Copy c (ValidatorSet s)"
  have ev: "ValidatorSet (evictOldest s (copy c s) 11) = ?vs"
    by (simp add: evictOldest_def copy_def)
  have num: "Snapshot.Number (evictOldest s (copy c s) 11) = 10"
    by (simp add: evictOldest_def copy_def height)
  have change: "changeValidatorSet c s (evictOldest s (copy c s) 11) header
      = Inr (evictOldest s (copy c s) 11)"
    using sprint unfolding changeValidatorSet_def Let_def height
    by (simp only: if_False simp_thms)
  have len: "go_len (Validators c ?vs) = 3"
    by (simp add: go_len_def three)
  have quot: "go_quot 3 2 = 1"
    by (simp add: go_quot_def signed_divide_int_def)
  have turn: "\<not> outOfTurn c ?vs signer"
    using signer unfolding outOfTurn_def Let_def proposer len quot
    by (auto simp: word_sless_alt)
  have step: "applyHeader c s (copy c s) header =
      Inr ((evictOldest s (copy c s) 11)
             \<lparr>Recents := (Recents (evictOldest s (copy c s) 11))(11 \<mapsto> signer)\<rparr>)"
    using recover member turn by (simp add: applyHeader_def Let_def height change ev)
  show ?thesis
    using height by (simp add: Snapshot_apply_def step num)
qed

theorem scenario_three_validators_witness:
  "Snapshot_apply roundRobin (scenarioSnapshot 64) [sealedHeader 11 [] addrA] =
     Inr \<lparr>config = \<lparr>Sprint = 64\<rparr>, ethAPI = 0, sigcache = 0, Snapshot.Number = 11, Hash = 11,
          ValidatorSet = \<lparr>members = [addrA, addrB, addrC], turn = 0\<rparr>,
          Recents = [11 \<mapsto> addrA]\<rparr>"
proof -
  let ?s = "scenarioSnapshot 64"
  let ?h = "sealedHeader 11 [] addrA"
  have height: "Snapshot.Number ?s = 10" "Header.Number ?h = 11"
    by (simp_all add: scenario_simps)
  have sprint: "Sprint (config ?s) \<noteq> 0" "(11 + 1) mod Sprint (config ?s) \<noteq> 0"
    by (simp_all add: scenario_simps)
  have three: "length (Validators roundRobin (Copy roundRobin (ValidatorSet ?s))) = 3"
    by (simp add: scenario_simps)
  have proposer: "GetByAddress roundRobin (Copy roundRobin (ValidatorSet ?s))
      (Address roundRobin (GetProposer roundRobin (Copy roundRobin (ValidatorSet ?s)))) = 0"
    by (simp add: scenario_simps)
  have recover: "ecrecover roundRobin ?h (sigcache ?s) = Inr addrA"
    by (simp add: scenario_simps)
  have member: "HasAddress roundRobin (Copy roundRobin (ValidatorSet ?s)) (address_Bytes addrA)"
    by (simp add: scenario_simps)
  have signer: "GetByAddress roundRobin (Copy roundRobin (ValidatorSet ?s)) addrA = 0
      \<or> GetByAddress roundRobin (Copy roundRobin (ValidatorSet ?s)) addrA = 1"
    by (simp add: scenario_simps)
  show ?thesis
    using scenario_three_validators [OF height sprint three proposer recover member signer]
    by (simp add: scenario_simps)
qed

subsection \<open>What apply does not depend on\<close>

lemma applyHeader_recents:
  "(\<exists>e. applyHeader c s snap h = Inl e
        \<and> applyHeader c (s\<lparr>Recents := q\<rparr>) (snap\<lparr>Recents := r\<rparr>) h = Inl e) \<or>
   (\<exists>t r'. applyHeader c s snap h = Inr t
        \<and> applyHeader c (s\<lparr>Recents := q\<rparr>) (snap\<lparr>Recents := r\<rparr>) h = Inr (t\<lparr>Recents := r'\<rparr>))"
proof (cases "ecrecover c h (sigcache s)")
  case (Inl e)
  then show ?thesis by (simp add: applyHeader_def)
next
  case (Inr signer)
  let ?n = "Header.Number h"
  obtain r0 where ev: "evictOldest (s\<lparr>Recents := q\<rparr>) (snap\<lparr>Recents := r\<rparr>) ?n
      = (evictOldest s snap ?n)\<lparr>Recents := r0\<rparr>"
    by (cases "Sprint (config s) \<le> ?n") (simp_all add: evictOldest_def)
  have ch: "changeValidatorSet c (s\<lparr>Recents := q\<rparr>) (x\<lparr>Recents := r0\<rparr>) h
      = map_sum id (\<lambda>t. t\<lparr>Recents := r0\<rparr>) (changeValidatorSet c s x h)" for x
    by (simp add: changeValidatorSet_def Let_def)
  show ?thesis
  proof (cases "changeValidatorSet c s (evictOldest s snap ?n) h")
    case (Inl e)
    then show ?thesis using Inr by (simp add: applyHeader_def Let_def ev ch)
  next
    case (Inr snap1)
    then show ?thesis
      using \<open>ecrecover c h (sigcache s) = Inr signer\<close>
      by (auto simp: applyHeader_def Let_def ev ch)
  qed
qed

lemma applyHeaders_recents:
  "(\<exists>e. applyHeaders c s snap hs = Inl e
        \<and> applyHeaders c (s\<lparr>Recents := q\<rparr>) (snap\<lparr>Recents := r\<rparr>) hs = Inl e) \<or>
   (\<exists>t r'. applyHeaders c s snap hs = Inr t
        \<and> applyHeaders c (s\<lparr>Recents := q\<rparr>) (snap\<lparr>Recents := r\<rparr>) hs = Inr (t\<lparr>Recents := r'\<rparr>))"
proof (induction hs arbitrary: snap r)
  case Nil
  show ?case by auto
next
  case (Cons h hs)
  from applyHeader_recents [of c s snap h q r] show ?case
  proof (elim disjE exE conjE)
    fix e assume "applyHeader c s snap h = Inl e"
      "applyHeader c (s\<lparr>Recents := q\<rparr>) (snap\<lparr>Recents := r\<rparr>) h = Inl e"
    then show ?thesis by simp
  next
    fix t r' assume "applyHeader c s snap h = Inr t"
      "applyHeader c (s\<lparr>Recents := q\<rparr>) (snap\<lparr>Recents := r\<rparr>) h = Inr (t\<lparr>Recents := r'\<rparr>)"
    then show ?thesis using Cons.IH [of t r'] by simp
  qed
qed

text \<open>
  C9. The contents of \<open>Recents\<close> never decide whether \<open>apply\<close> accepts a run: for two
  snapshots that differ in \<open>Recents\<close> only, \<open>apply\<close> on the same headers fails with the
  same error for both, or succeeds for both with the same \<open>Number\<close>, \<open>Hash\<close> and
  \<open>ValidatorSet\<close>.
\<close>

theorem apply_ignores_recents:
  "(\<exists>e. Snapshot_apply c s headers = Inl e
        \<and> Snapshot_apply c (s\<lparr>Recents := r\<rparr>) headers = Inl e) \<or>
   (\<exists>t t'. Snapshot_apply c s headers = Inr t
        \<and> Snapshot_apply c (s\<lparr>Recents := r\<rparr>) headers = Inr t'
        \<and> Snapshot.Number t' = Snapshot.Number t \<and> Hash t' = Hash t
        \<and> ValidatorSet t' = ValidatorSet t)"
proof -
  have cp: "copy c (s\<lparr>Recents := r\<rparr>) = (copy c s)\<lparr>Recents := r\<rparr>"
    by (simp add: copy_def)
  from applyHeaders_recents [of c s "copy c s" headers r r] show ?thesis
  proof (elim disjE exE conjE)
    fix e assume "applyHeaders c s (copy c s) headers = Inl e"
      "applyHeaders c (s\<lparr>Recents := r\<rparr>) (copy c s\<lparr>Recents := r\<rparr>) headers = Inl e"
    then show ?thesis by (simp add: Snapshot_apply_def cp)
  next
    fix t r' assume "applyHeaders c s (copy c s) headers = Inr t"
      "applyHeaders c (s\<lparr>Recents := r\<rparr>) (copy c s\<lparr>Recents := r\<rparr>) headers = Inr (t\<lparr>Recents := r'\<rparr>)"
    then show ?thesis by (simp add: Snapshot_apply_def cp)
  qed
qed

theorem apply_ignores_recents_witness:
  "Snapshot_apply roundRobin (scenarioSnapshot 64) [sealedHeader 11 [] addrB] =
     Inr \<lparr>config = \<lparr>Sprint = 64\<rparr>, ethAPI = 0, sigcache = 0, Snapshot.Number = 11, Hash = 11,
          ValidatorSet = \<lparr>members = [addrA, addrB, addrC], turn = 0\<rparr>,
          Recents = [11 \<mapsto> addrB]\<rparr> \<and>
   Snapshot_apply roundRobin ((scenarioSnapshot 64)\<lparr>Recents := [10 \<mapsto> addrB]\<rparr>)
     [sealedHeader 11 [] addrB] =
     Inr \<lparr>config = \<lparr>Sprint = 64\<rparr>, ethAPI = 0, sigcache = 0, Snapshot.Number = 11, Hash = 11,
          ValidatorSet = \<lparr>members = [addrA, addrB, addrC], turn = 0\<rparr>,
          Recents = [10 \<mapsto> addrB, 11 \<mapsto> addrB]\<rparr>"
  using apply_ignores_recents [of roundRobin "scenarioSnapshot 64" "[sealedHeader 11 [] addrB]"
     "[10 \<mapsto> addrB]"]
  by (simp add: scenario_simps)

lemma applyHeader_parse_error:
  "applyHeader (c\<lparr>ParseValidators := \<lambda>b. (fst (ParseValidators c b), e b)\<rparr>) s snap h
     = applyHeader c s snap h"
proof -
  let ?c = "c\<lparr>ParseValidators := \<lambda>b. (fst (ParseValidators c b), e b)\<rparr>"
  have ch: "changeValidatorSet ?c s x h = changeValidatorSet c s x h" for x
    by (simp add: changeValidatorSet_def Let_def cong: if_cong)
  have ot: "outOfTurn ?c vs a = outOfTurn c vs a" for vs a
    by (simp add: outOfTurn_def Let_def cong: if_cong)
  show ?thesis
    by (simp add: applyHeader_def Let_def ch ot cong: sum.case_cong if_cong)
qed

lemma applyHeaders_parse_error:
  "applyHeaders (c\<lparr>ParseValidators := \<lambda>b. (fst (ParseValidators c b), e b)\<rparr>) s snap hs
     = applyHeaders c s snap hs"
  by (induction hs arbitrary: snap) (simp_all add: applyHeader_parse_error cong: sum.case_cong)

text \<open>
  C10. At the last header of a sprint the error of \<open>ParseValidators\<close> is dropped:
  whatever error the parser reports beside its list, \<open>apply\<close> returns what it returns
  when the parser reports that list with no error.
\<close>

theorem apply_discards_parse_error:
  "Snapshot_apply (c\<lparr>ParseValidators := \<lambda>b. (fst (ParseValidators c b), e b)\<rparr>) s headers
     = Snapshot_apply c s headers"
  by (simp add: Snapshot_apply_def applyHeaders_parse_error copy_def cong: sum.case_cong)

theorem apply_discards_parse_error_witness:
  "Snapshot_apply (roundRobin\<lparr>ParseValidators := \<lambda>b. (fst (ParseValidators roundRobin b),
        Some (errExternal ''invalid validators bytes''))\<rparr>)
     (scenarioSnapshot 4) [sealedHeader 11 swapExtra addrC] =
     Inr \<lparr>config = \<lparr>Sprint = 4\<rparr>, ethAPI = 0, sigcache = 0, Snapshot.Number = 11, Hash = 11,
          ValidatorSet = \<lparr>members = [addrB, addrC], turn = 1\<rparr>, Recents = [11 \<mapsto> addrC]\<rparr>"
  using apply_discards_parse_error [of roundRobin
      "\<lambda>b. Some (errExternal ''invalid validators bytes'')" "scenarioSnapshot 4"
      "[sealedHeader 11 swapExtra addrC]"]
  by (simp add: scenario_simps swapExtra_def)

subsection \<open>inturn\<close>

text \<open>
  C8. \<open>inturn\<close> returns 1 for the zero address; for any other signer it returns
  \<open>total - (normalizedSignerIdx - proposerIdx)\<close>, where the normalized index is the
  signer's index plus \<open>total\<close> when it is below the proposer's, converted to
  \<^verbatim>\<open>uint64\<close>; and the result is the same for all values of \<open>number\<close> and \<open>epoch\<close>.
  The indices are the Go \<^verbatim>\<open>int\<close>s that \<open>GetByAddress\<close> returns, read with \<open>sint\<close>.
\<close>

theorem inturn_value:
  "inturn c s number signer epoch =
     (if signer = 0 then 1
      else word_of_int
        (int (length (Validators c (ValidatorSet s)))
         - ((if sint (GetByAddress c (ValidatorSet s) signer)
                 < sint (GetByAddress c (ValidatorSet s) (Address c (GetProposer c (ValidatorSet s))))
             then sint (GetByAddress c (ValidatorSet s) signer)
                    + int (length (Validators c (ValidatorSet s)))
             else sint (GetByAddress c (ValidatorSet s) signer))
            - sint (GetByAddress c (ValidatorSet s) (Address c (GetProposer c (ValidatorSet s)))))))
   \<and> inturn c s number signer epoch = inturn c s number' signer epoch'"
  by (simp add: inturn_def Let_def address_Bytes_eq_iff go_len_def word_sless_alt)

theorem inturn_value_witness:
  "inturn roundRobin (scenarioSnapshot 64) 11 0 64 = 1 \<and>
   inturn roundRobin (scenarioSnapshot 64) 11 addrB 64 = 2 \<and>
   inturn roundRobin (scenarioSnapshot 64) 11 addrB 64 = inturn roundRobin (scenarioSnapshot 64) 99 addrB 7"
proof -
  note zero = inturn_value [of roundRobin "scenarioSnapshot 64" 11 0 64 99 7]
  note signerB = inturn_value [of roundRobin "scenarioSnapshot 64" 11 addrB 64 99 7]
  from zero have 1: "inturn roundRobin (scenarioSnapshot 64) 11 0 64 = 1"
    by simp
  from signerB have 2: "inturn roundRobin (scenarioSnapshot 64) 11 addrB 64 = 2"
    by (simp add: scenarioSnapshot_def roundRobin_def addrA_def addrB_def addrC_def)
  from signerB have 3: "inturn roundRobin (scenarioSnapshot 64) 11 addrB 64
      = inturn roundRobin (scenarioSnapshot 64) 99 addrB 7"
    by (rule conjunct2)
  from 1 2 3 show ?thesis by (intro conjI)
qed

subsection \<open>The window of recent signers\<close>










subsection \<open>Persistence\<close>



subsection \<open>apply on the heap: the input is left alone\<close>

text \<open>
  The rules of the weakest precondition, one for each primitive action, then the
  refinement: each part of the loop body, run on a heap where the snapshot under
  construction stands for \<open>v\<close>, does what its counterpart on values does to \<open>v\<close>, and
  writes only beyond the address where the construction began.
\<close>

lemma wp_returnH [simp]: "wp (returnH x) Q E h = Q x h"
  by (simp add: wp_def returnH_def)

lemma wp_failH [simp]: "wp (failH e) Q E h = E e h"
  by (simp add: wp_def failH_def)

lemma wp_bindH [simp]: "wp (bindH m f) Q E h = wp m (\<lambda>x. wp (f x) Q E) E h"
  by (simp add: wp_def bindH_def split: prod.splits sum.splits)

lemma wp_liftH [simp]:
  "wp (liftH r) Q E h = (case r of Inl e \<Rightarrow> E e h | Inr x \<Rightarrow> Q x h)"
  by (simp add: wp_def liftH_def split: sum.splits)

lemma wp_mono:
  assumes "wp m Q E h" and "\<And>x h'. Q x h' \<Longrightarrow> Q' x h'" and "\<And>e h'. E e h' \<Longrightarrow> E' e h'"
  shows "wp m Q' E' h"
  using assms by (auto simp: wp_def split: prod.splits sum.splits)

lemma wp_readSnapshot [simp]:
  "wp (readSnapshot p) Q E h =
     (case snapshots h p of None \<Rightarrow> E panicNilPointer h | Some cell \<Rightarrow> Q cell h)"
  by (simp add: wp_def readSnapshot_def split: option.splits)

lemma wp_writeSnapshot [simp]:
  "wp (writeSnapshot p f) Q E h =
     (case snapshots h p of None \<Rightarrow> E panicNilPointer h
      | Some cell \<Rightarrow> Q () (h\<lparr>snapshots := (snapshots h)(p \<mapsto> f cell)\<rparr>))"
  by (simp add: wp_def writeSnapshot_def split: option.splits)

lemma wp_readValSet [simp]:
  "wp (readValSet p) Q E h =
     (case valsets h p of None \<Rightarrow> E panicNilPointer h | Some vs \<Rightarrow> Q vs h)"
  by (simp add: wp_def readValSet_def split: option.splits)

lemma wp_writeValSet [simp]:
  "wp (writeValSet p f) Q E h =
     (case valsets h p of None \<Rightarrow> E panicNilPointer h
      | Some vs \<Rightarrow> Q () (h\<lparr>valsets := (valsets h)(p \<mapsto> f vs)\<rparr>))"
  by (simp add: wp_def writeValSet_def split: option.splits)

lemma wp_rangeMap [simp]:
  "wp (rangeMap p) Q E h = Q (case maps h p of None \<Rightarrow> Map.empty | Some m \<Rightarrow> m) h"
  by (simp add: wp_def rangeMap_def split: option.splits)

lemma wp_deleteKey [simp]:
  "wp (deleteKey p k) Q E h =
     (case maps h p of None \<Rightarrow> Q () h
      | Some m \<Rightarrow> Q () (h\<lparr>maps := (maps h)(p \<mapsto> m(k := None))\<rparr>))"
  by (simp add: wp_def deleteKey_def split: option.splits)

lemma wp_assignKey [simp]:
  "wp (assignKey p k v) Q E h =
     (case maps h p of None \<Rightarrow> E panicNilMap h
      | Some m \<Rightarrow> Q () (h\<lparr>maps := (maps h)(p \<mapsto> m(k \<mapsto> v))\<rparr>))"
  by (simp add: wp_def assignKey_def split: option.splits)

lemma wp_assignAll [simp]:
  "wp (assignAll p entries) Q E h =
     (case maps h p of
        None \<Rightarrow> if entries = Map.empty then Q () h else E panicNilMap h
      | Some m \<Rightarrow> Q () (h\<lparr>maps := (maps h)(p \<mapsto> m ++ entries)\<rparr>))"
  by (simp add: wp_def assignAll_def split: option.splits)

lemma wp_newSnapshotCell [simp]:
  "wp (newSnapshotCell cell) Q E h =
     Q (nextPtr h) (h\<lparr>snapshots := (snapshots h)(nextPtr h \<mapsto> cell), nextPtr := nextPtr h + 1\<rparr>)"
  by (simp add: wp_def newSnapshotCell_def)

lemma wp_newValSet [simp]:
  "wp (newValSet vs) Q E h =
     Q (nextPtr h) (h\<lparr>valsets := (valsets h)(nextPtr h \<mapsto> vs), nextPtr := nextPtr h + 1\<rparr>)"
  by (simp add: wp_def newValSet_def)

lemma wp_makeMap [simp]:
  "wp makeMap Q E h =
     Q (nextPtr h) (h\<lparr>maps := (maps h)(nextPtr h \<mapsto> Map.empty), nextPtr := nextPtr h + 1\<rparr>)"
  by (simp add: wp_def makeMap_def)

lemma wp_if:
  "wp (if b then m1 else m2) Q E h = (if b then wp m1 Q E h else wp m2 Q E h)"
  by simp

lemma evictOldestH_refines:
  assumes b: "building n h0 snap v h"
    and s: "s < n" "snapshots h0 s = Some sCell" "cConfig sCell = config sv"
  shows "wp (evictOldestH s snap N) (\<lambda>_. building n h0 snap (evictOldest sv v N)) E h"
proof -
  from b s have rs: "snapshots h s = Some sCell"
    by (simp add: building_def extends_def unchangedBelow_def)
  from b obtain cell vs r where c: "snapshots h snap = Some cell"
    and vs: "valsets h (cValidatorSet cell) = Some vs"
    and r: "maps h (cRecents cell) = Some r"
    by (auto simp: building_def snapshotAt_def split: option.splits)
  show ?thesis
    using b s
    by (auto simp: evictOldestH_def rs c vs r evictOldest_def building_def extends_def
        unchangedBelow_def snapshotAt_def)
qed


lemma building_read:
  assumes "building n h0 snap v h"
  obtains cell where "snapshots h snap = Some cell"
    and "valsets h (cValidatorSet cell) = Some (ValidatorSet v)"
    and "maps h (cRecents cell) = Some (Recents v)"
    and "n \<le> cValidatorSet cell" "cValidatorSet cell < nextPtr h"
    and "n \<le> cRecents cell" "cRecents cell < nextPtr h"
    and "cConfig cell = config v" "cEthAPI cell = ethAPI v" "cSigcache cell = sigcache v"
      "cNumber cell = Snapshot.Number v" "cHash cell = Hash v"
  using assms by (auto simp: building_def snapshotAt_def split: option.splits)

lemma building_source:
  assumes "building n h0 snap v h" and "s < n"
  shows "snapshots h s = snapshots h0 s"
  using assms by (simp add: building_def extends_def unchangedBelow_def)

lemma building_extends: "building n h0 snap v h \<Longrightarrow> extends n h0 h"
  by (simp add: building_def)

lemma changeValidatorSetH_refines:
  fixes c :: "('vs, 'val, 'h) collab"
  assumes b: "building n h0 snap v h"
    and s: "s < n" "snapshots h0 s = Some sCell" "cConfig sCell = config sv"
  shows "wp (changeValidatorSetH c s snap header)
           (\<lambda>_ h'. \<exists>v'. changeValidatorSet c sv v header = Inr v' \<and> building n h0 snap v' h')
           (\<lambda>e h'. changeValidatorSet c sv v header = Inl e \<and> extends n h0 h') h"
proof -
  from building_source [OF b s(1)] s have rs: "snapshots h s = Some sCell" by simp
  from b obtain cell where c: "snapshots h snap = Some cell"
    and vs: "valsets h (cValidatorSet cell) = Some (ValidatorSet v)"
    and r: "maps h (cRecents cell) = Some (Recents v)"
    and bounds: "n \<le> cValidatorSet cell" "cValidatorSet cell < nextPtr h"
      "n \<le> cRecents cell" "cRecents cell < nextPtr h"
    by (rule building_read)
  from b have ext: "extends n h0 h" and sn: "n \<le> snap" "snap < nextPtr h"
    and at: "snapshotAt h snap = Some v"
    by (simp_all add: building_def)
  from at c vs r have v: "v = \<lparr>config = cConfig cell, ethAPI = cEthAPI cell,
      sigcache = cSigcache cell, Snapshot.Number = cNumber cell, Hash = cHash cell,
      ValidatorSet = ValidatorSet v, Recents = Recents v\<rparr>"
    by (simp add: snapshotAt_def)
  have cf: "cConfig cell = config v" "cEthAPI cell = ethAPI v" "cSigcache cell = sigcache v"
    "cNumber cell = Snapshot.Number v" "cHash cell = Hash v"
    by (subst v, simp)+
  have unfoldH: "wp (changeValidatorSetH c s snap header) Q E h =
      wp (if 0 < Header.Number header \<and> Sprint (config sv) = 0 then failH panicDivideByZero
          else if 0 < Header.Number header
                  \<and> (Header.Number header + 1) mod Sprint (config sv) = 0 then
            if length (Extra header) < extraVanity c + extraSeal c then failH panicSliceBounds
            else
              bindH (readSnapshot snap) (\<lambda>cell.
              bindH (CopyH c (cValidatorSet cell)) (\<lambda>cp.
              bindH (getUpdatedValidatorSetH c cp
                 (fst (ParseValidators c
                    (take (length (Extra header) - extraSeal c - extraVanity c)
                       (drop (extraVanity c) (Extra header)))))) (\<lambda>v.
              bindH (IncrementProposerPriorityH c v 1) (\<lambda>_.
              writeSnapshot snap (\<lambda>cell. cell\<lparr>cValidatorSet := v\<rparr>)))))
          else returnH ()) Q E h" for Q E
    unfolding changeValidatorSetH_def Let_def
    by (simp only: wp_bindH wp_readSnapshot rs option.case s(3))
  show ?thesis
  proof (cases "0 < Header.Number header \<and> Sprint (config sv) = 0")
    case True
    have "changeValidatorSet c sv v header = Inl panicDivideByZero"
      unfolding changeValidatorSet_def Let_def by (simp only: if_P [OF True])
    with ext show ?thesis
      unfolding unfoldH by (simp only: if_P [OF True] wp_failH simp_thms)
  next
    case nz: False
    show ?thesis
    proof (cases "0 < Header.Number header \<and> (Header.Number header + 1) mod Sprint (config sv) = 0")
      case False
      have "changeValidatorSet c sv v header = Inr v"
        unfolding changeValidatorSet_def Let_def
        by (simp only: if_not_P [OF nz] if_not_P [OF False])
      with b show ?thesis
        unfolding unfoldH
        by (simp only: if_not_P [OF nz] if_not_P [OF False] wp_returnH) simp
    next
      case True
      show ?thesis
      proof (cases "length (Extra header) < extraVanity c + extraSeal c")
        case short: True
        have "changeValidatorSet c sv v header = Inl panicSliceBounds"
          unfolding changeValidatorSet_def Let_def
          by (simp only: if_not_P [OF nz] if_P [OF True] if_P [OF short])
        with ext show ?thesis
          unfolding unfoldH
          by (simp only: if_not_P [OF nz] if_P [OF True] if_P [OF short] wp_failH simp_thms)
      next
        case False
        let ?new = "IncrementProposerPriority c
            (getUpdatedValidatorSet c (Copy c (ValidatorSet v))
               (fst (ParseValidators c
                  (take (length (Extra header) - extraSeal c - extraVanity c)
                     (drop (extraVanity c) (Extra header)))))) 1"
        have pure: "changeValidatorSet c sv v header
            = Inr (v\<lparr>ValidatorSet := ?new\<rparr>)"
          unfolding changeValidatorSet_def Let_def
          by (simp only: if_not_P [OF nz] if_P [OF True] if_not_P [OF False])
        have neq: "cValidatorSet cell \<noteq> nextPtr h" "cRecents cell \<noteq> nextPtr h"
          "snap \<noteq> nextPtr h"
          using bounds sn by auto
        from ext have e1: "n \<le> nextPtr h" and e2: "unchangedBelow n h0 h"
          by (simp_all add: extends_def)
        have "wp (bindH (readSnapshot snap) (\<lambda>cell.
              bindH (CopyH c (cValidatorSet cell)) (\<lambda>cp.
              bindH (getUpdatedValidatorSetH c cp
                 (fst (ParseValidators c
                    (take (length (Extra header) - extraSeal c - extraVanity c)
                       (drop (extraVanity c) (Extra header)))))) (\<lambda>v.
              bindH (IncrementProposerPriorityH c v 1) (\<lambda>_.
              writeSnapshot snap (\<lambda>cell. cell\<lparr>cValidatorSet := v\<rparr>))))))
            (\<lambda>_. building n h0 snap (v\<lparr>ValidatorSet := ?new\<rparr>))
            (\<lambda>e h'. False) h"
          apply (simp add: CopyH_def getUpdatedValidatorSetH_def IncrementProposerPriorityH_def
              c vs)
          using e1 e2 sn bounds r neq cf
          apply (simp add: building_def extends_def unchangedBelow_def snapshotAt_def)
          done
        then have "wp (bindH (readSnapshot snap) (\<lambda>cell.
              bindH (CopyH c (cValidatorSet cell)) (\<lambda>cp.
              bindH (getUpdatedValidatorSetH c cp
                 (fst (ParseValidators c
                    (take (length (Extra header) - extraSeal c - extraVanity c)
                       (drop (extraVanity c) (Extra header)))))) (\<lambda>v.
              bindH (IncrementProposerPriorityH c v 1) (\<lambda>_.
              writeSnapshot snap (\<lambda>cell. cell\<lparr>cValidatorSet := v\<rparr>))))))
           (\<lambda>_ h'. \<exists>v'. changeValidatorSet c sv v header = Inr v' \<and> building n h0 snap v' h')
           (\<lambda>e h'. changeValidatorSet c sv v header = Inl e \<and> extends n h0 h') h"
          by (rule wp_mono) (simp_all add: pure)
        then show ?thesis
          unfolding unfoldH
          by (simp only: if_not_P [OF nz] if_P [OF True] if_not_P [OF False])
      qed
    qed
  qed
qed


lemma record_signer_refines:
  fixes c :: "('vs, 'val, 'h) collab"
  assumes b: "building n h0 snap v h"
  shows "wp (bindH (readSnapshot snap) (\<lambda>cell.
             bindH (readValSet (cValidatorSet cell)) (\<lambda>vs.
             if \<not> HasAddress c vs (address_Bytes signer) then failH errUnauthorizedSigner
             else if outOfTurn c vs signer then failH errRecentlySigned
             else assignKey (cRecents cell) N signer)))
           (\<lambda>_ h'. \<exists>v'.
               (if \<not> HasAddress c (ValidatorSet v) (address_Bytes signer)
                then Inl errUnauthorizedSigner
                else if outOfTurn c (ValidatorSet v) signer then Inl errRecentlySigned
                else Inr (v\<lparr>Recents := (Recents v)(N \<mapsto> signer)\<rparr>)) = Inr v'
               \<and> building n h0 snap v' h')
           (\<lambda>e h'.
               (if \<not> HasAddress c (ValidatorSet v) (address_Bytes signer)
                then Inl errUnauthorizedSigner
                else if outOfTurn c (ValidatorSet v) signer then Inl errRecentlySigned
                else Inr (v\<lparr>Recents := (Recents v)(N \<mapsto> signer)\<rparr>)) = Inl e
               \<and> extends n h0 h') h"
proof -
  from b obtain cell where c: "snapshots h snap = Some cell"
    and vs: "valsets h (cValidatorSet cell) = Some (ValidatorSet v)"
    and r: "maps h (cRecents cell) = Some (Recents v)"
    and bounds: "n \<le> cValidatorSet cell" "cValidatorSet cell < nextPtr h"
      "n \<le> cRecents cell" "cRecents cell < nextPtr h"
    and cf: "cConfig cell = config v" "cEthAPI cell = ethAPI v" "cSigcache cell = sigcache v"
      "cNumber cell = Snapshot.Number v" "cHash cell = Hash v"
    by (rule building_read)
  from b have ext: "extends n h0 h" and sn: "n \<le> snap" "snap < nextPtr h"
    by (simp_all add: building_def)
  show ?thesis
    using ext sn bounds cf
    by (auto simp: c vs r building_def extends_def unchangedBelow_def snapshotAt_def)
qed

lemma applyHeaderH_refines:
  fixes c :: "('vs, 'val, 'h) collab"
  assumes b: "building n h0 snap v h"
    and s: "s < n" "snapshots h0 s = Some sCell" "cConfig sCell = config sv"
    and cache: "cSigcache sCell = sigcache sv"
  shows "wp (applyHeaderH c s snap header)
           (\<lambda>_ h'. \<exists>v'. applyHeader c sv v header = Inr v' \<and> building n h0 snap v' h')
           (\<lambda>e h'. applyHeader c sv v header = Inl e \<and> extends n h0 h') h"
proof -
  let ?N = "Header.Number header"
  let ?Q = "\<lambda>(_::unit) h'. \<exists>v'. applyHeader c sv v header = Inr v' \<and> building n h0 snap v' h'"
  let ?E = "\<lambda>e h'. applyHeader c sv v header = Inl e \<and> extends n h0 h'"
  let ?tail = "\<lambda>signer. bindH (readSnapshot snap) (\<lambda>cell.
             bindH (readValSet (cValidatorSet cell)) (\<lambda>vs.
             if \<not> HasAddress c vs (address_Bytes signer) then failH errUnauthorizedSigner
             else if outOfTurn c vs signer then failH errRecentlySigned
             else assignKey (cRecents cell) ?N signer))"
  have after_evict: "wp (bindH (readSnapshot s) (\<lambda>sCell.
        bindH (liftH (ecrecover c header (cSigcache sCell))) (\<lambda>signer.
        bindH (changeValidatorSetH c s snap header) (\<lambda>_. ?tail signer)))) ?Q ?E h1"
    if b1: "building n h0 snap (evictOldest sv v ?N) h1" for h1
  proof -
    from building_source [OF b1 s(1)] s have rs: "snapshots h1 s = Some sCell" by simp
    show ?thesis
    proof (cases "ecrecover c header (sigcache sv)")
      case (Inl e)
      with building_extends [OF b1] show ?thesis
        by (simp add: rs cache applyHeader_def)
    next
      case (Inr signer)
      have "wp (changeValidatorSetH c s snap header) (\<lambda>_. wp (?tail signer) ?Q ?E) ?E h1"
      proof (rule wp_mono [OF changeValidatorSetH_refines [OF b1 s]])
        fix x h2
        assume "\<exists>v'. changeValidatorSet c sv (evictOldest sv v ?N) header = Inr v'
            \<and> building n h0 snap v' h2"
        then obtain v2 where ch: "changeValidatorSet c sv (evictOldest sv v ?N) header = Inr v2"
          and b2: "building n h0 snap v2 h2" by blast
        show "wp (?tail signer) ?Q ?E h2"
          by (rule wp_mono [OF record_signer_refines [OF b2]])
            (simp_all add: applyHeader_def Let_def Inr ch)
      next
        fix e h2
        assume "changeValidatorSet c sv (evictOldest sv v ?N) header = Inl e \<and> extends n h0 h2"
        then show "applyHeader c sv v header = Inl e \<and> extends n h0 h2"
          by (simp add: applyHeader_def Let_def Inr)
      qed
      then show ?thesis
        by (simp add: rs cache Inr)
    qed
  qed
  have "wp (evictOldestH s snap ?N)
      (\<lambda>_. wp (bindH (readSnapshot s) (\<lambda>sCell.
        bindH (liftH (ecrecover c header (cSigcache sCell))) (\<lambda>signer.
        bindH (changeValidatorSetH c s snap header) (\<lambda>_. ?tail signer)))) ?Q ?E) ?E h"
  proof (rule wp_mono [OF evictOldestH_refines [OF b s, of ?N ?E]])
    fix x h1 assume "building n h0 snap (evictOldest sv v ?N) h1"
    then show "wp (bindH (readSnapshot s) (\<lambda>sCell.
        bindH (liftH (ecrecover c header (cSigcache sCell))) (\<lambda>signer.
        bindH (changeValidatorSetH c s snap header) (\<lambda>_. ?tail signer)))) ?Q ?E h1"
      by (rule after_evict)
  qed
  then show ?thesis
    by (simp add: applyHeaderH_def Let_def)
qed

lemma applyHeadersH_refines:
  fixes c :: "('vs, 'val, 'h) collab"
  assumes s: "s < n" "snapshots h0 s = Some sCell" "cConfig sCell = config sv"
    and cache: "cSigcache sCell = sigcache sv"
  shows "building n h0 snap v h \<Longrightarrow>
         wp (applyHeadersH c s snap headers)
           (\<lambda>_ h'. \<exists>v'. applyHeaders c sv v headers = Inr v' \<and> building n h0 snap v' h')
           (\<lambda>e h'. applyHeaders c sv v headers = Inl e \<and> extends n h0 h') h"
proof (induction headers arbitrary: v h)
  case Nil
  then show ?case by simp
next
  case (Cons header headers)
  have "wp (applyHeaderH c s snap header)
      (\<lambda>_. wp (applyHeadersH c s snap headers)
        (\<lambda>_ h'. \<exists>v'. applyHeaders c sv v (header # headers) = Inr v' \<and> building n h0 snap v' h')
        (\<lambda>e h'. applyHeaders c sv v (header # headers) = Inl e \<and> extends n h0 h'))
      (\<lambda>e h'. applyHeaders c sv v (header # headers) = Inl e \<and> extends n h0 h') h"
  proof (rule wp_mono [OF applyHeaderH_refines [OF Cons.prems s cache]])
    fix x h1
    assume "\<exists>v'. applyHeader c sv v header = Inr v' \<and> building n h0 snap v' h1"
    then obtain v1 where st: "applyHeader c sv v header = Inr v1"
      and b1: "building n h0 snap v1 h1" by blast
    show "wp (applyHeadersH c s snap headers)
        (\<lambda>_ h'. \<exists>v'. applyHeaders c sv v (header # headers) = Inr v' \<and> building n h0 snap v' h')
        (\<lambda>e h'. applyHeaders c sv v (header # headers) = Inl e \<and> extends n h0 h') h1"
      by (rule wp_mono [OF Cons.IH [OF b1]]) (simp_all add: st)
  next
    fix e h1
    assume "applyHeader c sv v header = Inl e \<and> extends n h0 h1"
    then show "applyHeaders c sv v (header # headers) = Inl e \<and> extends n h0 h1" by simp
  qed
  then show ?case by simp
qed


lemma copyH_refines:
  fixes c :: "('vs, 'val, 'h) collab"
  assumes at: "snapshotAt h s = Some sv"
    and cell: "snapshots h s = Some sCell"
    and below: "s < nextPtr h" "cValidatorSet sCell < nextPtr h" "cRecents sCell < nextPtr h"
  shows "wp (copyH c s) (\<lambda>snap. building (nextPtr h) h snap (copy c sv)) (\<lambda>e h'. False) h"
proof -
  from at cell obtain vs r where vs: "valsets h (cValidatorSet sCell) = Some vs"
    and r: "maps h (cRecents sCell) = Some r"
    and sv: "sv = \<lparr>config = cConfig sCell, ethAPI = cEthAPI sCell, sigcache = cSigcache sCell,
        Snapshot.Number = cNumber sCell, Hash = cHash sCell, ValidatorSet = vs, Recents = r\<rparr>"
    by (auto simp: snapshotAt_def split: option.splits)
  have ne: "cRecents sCell \<noteq> Suc (nextPtr h)" "cRecents sCell \<noteq> nextPtr h"
    using below by auto
  show ?thesis
    using below ne
    by (simp add: copyH_def CopyH_def cell vs r sv copy_def building_def extends_def
        unchangedBelow_def snapshotAt_def)
qed

lemma snapshotAt_unchanged:
  assumes "unchangedBelow n h h'" and "snapshots h s = Some sCell"
    and "s < n" "cValidatorSet sCell < n" "cRecents sCell < n"
  shows "snapshotAt h' s = snapshotAt h s"
  using assms by (auto simp: unchangedBelow_def snapshotAt_def split: option.splits)

lemma applyH_refines:
  fixes c :: "('vs, 'val, 'h) collab"
  assumes at: "snapshotAt h s = Some sv"
    and cell: "snapshots h s = Some sCell"
    and below: "s < nextPtr h" "cValidatorSet sCell < nextPtr h" "cRecents sCell < nextPtr h"
  shows "wp (applyH c s headers)
           (\<lambda>p h'. extends (nextPtr h) h h'
              \<and> (\<exists>t. Snapshot_apply c sv headers = Inr t \<and> snapshotAt h' p = Some t)
              \<and> (if headers = [] then p = s else nextPtr h \<le> p))
           (\<lambda>e h'. extends (nextPtr h) h h' \<and> Snapshot_apply c sv headers = Inl e) h"
proof -
  let ?n = "nextPtr h"
  let ?Q = "\<lambda>p h'. extends ?n h h'
              \<and> (\<exists>t. Snapshot_apply c sv headers = Inr t \<and> snapshotAt h' p = Some t)
              \<and> (if headers = [] then p = s else ?n \<le> p)"
  let ?E = "\<lambda>e h'. extends ?n h h' \<and> Snapshot_apply c sv headers = Inl e"
  have refl: "extends ?n h h" by (simp add: extends_def unchangedBelow_def)
  from at cell have f: "cConfig sCell = config sv" "cSigcache sCell = sigcache sv"
    "cNumber sCell = Snapshot.Number sv"
    by (auto simp: snapshotAt_def split: option.splits)
  show ?thesis
  proof (cases "headers = []")
    case True
    with refl at show ?thesis by (simp add: applyH_def Snapshot_apply_def)
  next
    case ne: False
    show ?thesis
    proof (cases "sanityCheck headers \<and> Header.Number (headers ! 0) = Snapshot.Number sv + 1")
      case False
      with ne refl show ?thesis
        by (auto simp: applyH_def Snapshot_apply_def cell f)
    next
      case True
      let ?fin = "\<lambda>snap. bindH (writeSnapshot snap
                   (\<lambda>cell. cell\<lparr>cNumber := cNumber cell + word_of_nat (length headers)\<rparr>)) (\<lambda>_.
          bindH (writeSnapshot snap
                   (\<lambda>cell. cell\<lparr>cHash := HeaderHash c (headers ! (length headers - 1))\<rparr>)) (\<lambda>_.
          returnH snap))"
      have fin: "wp (?fin snap) ?Q ?E h2"
        if b2: "building ?n h snap v h2" and loop: "applyHeaders c sv (copy c sv) headers = Inr v"
        for snap v h2
      proof -
        from b2 obtain cell2 where c2: "snapshots h2 snap = Some cell2"
          and vs2: "valsets h2 (cValidatorSet cell2) = Some (ValidatorSet v)"
          and r2: "maps h2 (cRecents cell2) = Some (Recents v)"
          and bounds: "?n \<le> cValidatorSet cell2" "cValidatorSet cell2 < nextPtr h2"
            "?n \<le> cRecents cell2" "cRecents cell2 < nextPtr h2"
          and cf: "cConfig cell2 = config v" "cEthAPI cell2 = ethAPI v"
            "cSigcache cell2 = sigcache v" "cNumber cell2 = Snapshot.Number v"
            "cHash cell2 = Hash v"
          by (rule building_read)
        from b2 have ext: "extends ?n h h2" and sn: "?n \<le> snap" "snap < nextPtr h2"
          by (simp_all add: building_def)
        show ?thesis
          using ext sn bounds cf ne True loop
          by (simp add: c2 vs2 r2 extends_def unchangedBelow_def snapshotAt_def
              Snapshot_apply_def)
      qed
      have loopH: "wp (bindH (applyHeadersH c s snap headers) (\<lambda>_. ?fin snap)) ?Q ?E h1"
        if b1: "building ?n h snap (copy c sv) h1" for snap h1
      proof -
        have "wp (applyHeadersH c s snap headers) (\<lambda>_. wp (?fin snap) ?Q ?E) ?E h1"
        proof (rule wp_mono [OF applyHeadersH_refines [OF below(1) cell f(1,2) b1]])
          fix x h2
          assume "\<exists>v'. applyHeaders c sv (copy c sv) headers = Inr v' \<and> building ?n h snap v' h2"
          then obtain v where "applyHeaders c sv (copy c sv) headers = Inr v"
            and "building ?n h snap v h2" by blast
          then show "wp (?fin snap) ?Q ?E h2" by (rule fin [rotated])
        next
          fix e h2
          assume "applyHeaders c sv (copy c sv) headers = Inl e \<and> extends ?n h h2"
          with ne True show "extends ?n h h2 \<and> Snapshot_apply c sv headers = Inl e"
            by (simp add: Snapshot_apply_def)
        qed
        then show ?thesis by simp
      qed
      have "wp (copyH c s) (\<lambda>snap. wp (bindH (applyHeadersH c s snap headers) (\<lambda>_. ?fin snap)) ?Q ?E)
          ?E h"
      proof (rule wp_mono [OF copyH_refines [OF at cell below]])
        fix snap h1 assume "building ?n h snap (copy c sv) h1"
        then show "wp (bindH (applyHeadersH c s snap headers) (\<lambda>_. ?fin snap)) ?Q ?E h1"
          by (rule loopH)
      qed simp
      with ne True show ?thesis
        by (simp add: applyH_def cell f)
    qed
  qed
qed

text \<open>
  C5. \<open>apply\<close> never changes its input snapshot. From a heap where the pointer \<open>s\<close>
  stands for the snapshot \<open>sv\<close>, whatever \<open>apply\<close> returns, no object that existed
  before the call has changed, so \<open>s\<close> still stands for \<open>sv\<close>: its \<open>Number\<close>, \<open>Hash\<close>,
  \<open>ValidatorSet\<close> and \<open>Recents\<close> are as before. All writes go to the copy, its copied
  validator set and its new map, which lie at fresh addresses. When \<open>apply\<close> fails it
  returns the error and no pointer, hence no partly updated snapshot; when it succeeds
  on a non-empty run the pointer it returns is fresh; and in both cases the outcome is
  the one \<open>Snapshot_apply\<close> computes on values.
\<close>

theorem applyH_preserves_input:
  fixes c :: "('vs, 'val, 'h) collab"
  assumes at: "snapshotAt h s = Some sv"
    and cell: "snapshots h s = Some sCell"
    and below: "s < nextPtr h" "cValidatorSet sCell < nextPtr h" "cRecents sCell < nextPtr h"
    and run: "applyH c s headers h = (h', r)"
  shows "unchangedBelow (nextPtr h) h h' \<and> snapshotAt h' s = Some sv \<and>
     (case r of
        Inl e \<Rightarrow> Snapshot_apply c sv headers = Inl e
      | Inr p \<Rightarrow> (\<exists>t. Snapshot_apply c sv headers = Inr t \<and> snapshotAt h' p = Some t)
                  \<and> (if headers = [] then p = s else nextPtr h \<le> p))"
proof -
  from applyH_refines [OF at cell below, of c headers] run
  have r: "case r of
      Inl e \<Rightarrow> extends (nextPtr h) h h' \<and> Snapshot_apply c sv headers = Inl e
    | Inr p \<Rightarrow> extends (nextPtr h) h h'
        \<and> (\<exists>t. Snapshot_apply c sv headers = Inr t \<and> snapshotAt h' p = Some t)
        \<and> (if headers = [] then p = s else nextPtr h \<le> p)"
    by (simp add: wp_def)
  then have u: "unchangedBelow (nextPtr h) h h'"
    by (cases r) (simp_all add: extends_def)
  from snapshotAt_unchanged [OF u cell below] at have "snapshotAt h' s = Some sv" by simp
  with u r show ?thesis by (cases r) simp_all
qed


theorem applyH_preserves_input_witness:
  "snapshotAt (scenarioHeap 64) 0 = Some (scenarioSnapshot 64) \<and>
   snd (applyH roundRobin 0 [sealedHeader 11 [] addrC] (scenarioHeap 64)) = Inl errRecentlySigned \<and>
   snapshotAt (fst (applyH roundRobin 0 [sealedHeader 11 [] addrC] (scenarioHeap 64))) 0
     = Some (scenarioSnapshot 64)"
proof -
  let ?h = "scenarioHeap 64"
  let ?hs = "[sealedHeader 11 [] addrC]"
  let ?cell = "\<lparr>cConfig = \<lparr>Sprint = 64\<rparr>, cEthAPI = 0, cSigcache = 0,
                cNumber = 10, cHash = 10, cValidatorSet = 1, cRecents = 2\<rparr>"
  have at: "snapshotAt ?h 0 = Some (scenarioSnapshot 64)"
    by (simp add: snapshotAt_def scenarioHeap_def scenarioSnapshot_def)
  have cell: "snapshots ?h 0 = Some ?cell"
    by (simp add: scenarioHeap_def)
  have below: "0 < nextPtr ?h" "cValidatorSet ?cell < nextPtr ?h" "cRecents ?cell < nextPtr ?h"
    by (simp_all add: scenarioHeap_def)
  have run: "applyH roundRobin 0 ?hs ?h
      = (fst (applyH roundRobin 0 ?hs ?h), snd (applyH roundRobin 0 ?hs ?h))"
    by simp
  have pure: "Snapshot_apply roundRobin (scenarioSnapshot 64) ?hs = Inl errRecentlySigned"
    by (simp add: scenario_simps)
  note preserved = applyH_preserves_input [OF at cell below run]
  from preserved have kept: "snapshotAt (fst (applyH roundRobin 0 ?hs ?h)) 0
      = Some (scenarioSnapshot 64)"
    by (rule conjunct1 [OF conjunct2])
  from preserved have res: "case snd (applyH roundRobin 0 ?hs ?h) of
        Inl e \<Rightarrow> Snapshot_apply roundRobin (scenarioSnapshot 64) ?hs = Inl e
      | Inr p \<Rightarrow> (\<exists>t. Snapshot_apply roundRobin (scenarioSnapshot 64) ?hs = Inr t
            \<and> snapshotAt (fst (applyH roundRobin 0 ?hs ?h)) p = Some t)
          \<and> (if ?hs = [] then p = 0 else nextPtr ?h \<le> p)"
    by (rule conjunct2 [OF conjunct2])
  have "snd (applyH roundRobin 0 ?hs ?h) = Inl errRecentlySigned"
    using res unfolding pure by (cases "snd (applyH roundRobin 0 ?hs ?h)") simp_all
  with at kept show ?thesis by (intro conjI)
qed

end
